theory Spec2Isabelle
  imports Main "HOL-Library.Sublist" "HOL-Library.List_Lexorder" "HOL-Library.Char_ord"
begin

text \<open>
  A model of the two engines of the Helm chart optimizer: deduplication
  (\<^verbatim>\<open>pkg/dedup\<close>), which walks a chart and its subcharts, registers every declared
  dependency by name and version and removes the occurrences it classifies as
  duplicates, and cleanup (\<^verbatim>\<open>pkg/cleanup\<close>), which removes the source directories of
  dependencies declared with a \<^verbatim>\<open>file:\<close> repository. The Go methods become functions
  that take the filesystem and the receiver and return them with the error; what the
  engines print is left out.
\<close>

section \<open>Paths\<close>

text \<open>
  Every path the engines handle is produced by Go's \<^verbatim>\<open>filepath.Join\<close>,
  \<^verbatim>\<open>filepath.Dir\<close> or \<^verbatim>\<open>filepath.Abs\<close>, all of which end in
  \<^verbatim>\<open>filepath.Clean\<close>. A cleaned absolute Unix path is the list of its components,
  the root \<^verbatim>\<open>/\<close> being the empty list; two cleaned paths are equal as strings
  exactly when their component lists are equal. The chart path given on the command line
  is taken in this form (absolute and clean), so \<^verbatim>\<open>filepath.Abs\<close> is the identity
  on it.
\<close>

type_synonym path = "string list"

text \<open>\<^verbatim>\<open>strings.Split(s, "/")\<close>: the pieces of a raw string between separators.\<close>

fun splitSep :: "string \<Rightarrow> string list" where
  "splitSep [] = [[]]"
| "splitSep (c # cs) =
     (if c = CHR ''/'' then [] # splitSep cs
      else (case splitSep cs of [] \<Rightarrow> [[c]] | w # ws \<Rightarrow> (c # w) # ws))"

text \<open>
  One component, as \<^verbatim>\<open>filepath.Clean\<close> treats it after a rooted prefix: empty
  components and \<^verbatim>\<open>.\<close> vanish, \<^verbatim>\<open>..\<close> drops the last component (and is
  dropped itself at the root), anything else is appended.
\<close>

definition cleanStep :: "path \<Rightarrow> string \<Rightarrow> path" where
  "cleanStep p c =
     (if c = [] \<or> c = ''.'' then p
      else if c = ''..'' then butlast p
      else p @ [c])"

text \<open>
  \<^verbatim>\<open>filepath.Join(p, e1, ..., en)\<close> for a cleaned absolute \<open>p\<close> and raw
  strings \<open>e1 ... en\<close>: the elements are joined with separators and the result is
  cleaned.
\<close>

definition joinPath :: "path \<Rightarrow> string list \<Rightarrow> path" where
  "joinPath p elems = foldl cleanStep p (concat (map splitSep elems))"

text \<open>\<^verbatim>\<open>filepath.Dir\<close> and \<^verbatim>\<open>filepath.Base\<close> on a cleaned absolute path.\<close>

definition dirOf :: "path \<Rightarrow> path" where
  "dirOf p = butlast p"

definition baseOf :: "path \<Rightarrow> string" where
  "baseOf p = (if p = [] then ''/'' else last p)"

text \<open>A directory entry's name: one component, never empty, \<^verbatim>\<open>.\<close> or \<^verbatim>\<open>..\<close>.\<close>

definition validName :: "string \<Rightarrow> bool" where
  "validName n \<longleftrightarrow> n \<noteq> [] \<and> n \<noteq> ''.'' \<and> n \<noteq> ''..'' \<and> CHR ''/'' \<notin> set n"

section \<open>The filesystem\<close>

text \<open>
  What \<^verbatim>\<open>os.ReadFile\<close> followed by \<^verbatim>\<open>yaml.Unmarshal\<close> gives on a file: the
  file cannot be read, its content does not parse, or the declared dependencies.
\<close>

record dep =
  Name :: string
  Version :: string
  Repository :: string

datatype content = Unreadable | Malformed | Manifest "dep list"

datatype node = File content | Dir

text \<open>
  The filesystem is the association list of its existing absolute paths; \<open>locked\<close>
  lists the paths that cannot be unlinked (the permission failures of
  \<^verbatim>\<open>os.RemoveAll\<close>). Symbolic links and \<^verbatim>\<open>os.Stat\<close> failures other than
  absence are outside the model.
\<close>

record filesystem =
  nodes :: "(path \<times> node) list"
  locked :: "path list"

definition lookupNode :: "filesystem \<Rightarrow> path \<Rightarrow> node option" where
  "lookupNode fs p = map_of (nodes fs) p"

text \<open>\<^verbatim>\<open>_, err := os.Stat(p); err == nil\<close> (equivalently \<^verbatim>\<open>!os.IsNotExist(err)\<close>).\<close>

definition stat :: "filesystem \<Rightarrow> path \<Rightarrow> bool" where
  "stat fs p \<longleftrightarrow> lookupNode fs p \<noteq> None"

datatype error =
    ChartPathNotExist path
  | OpenErr path
  | YamlErr
  | ReadDirErr path
  | UnlinkErr path
  | DeduplicationFailed error
  | FailedToRemove path error
  | FailedToReadChartYaml error
  | FailedToParseChartYaml error
  | FailedToReadChartsDir error
  | FailedToRemoveDirectory path error

text \<open>
  The paths an error message prints. \<^verbatim>\<open>os\<close> errors are \<^verbatim>\<open>*PathError\<close> values and
  print their path; a \<^verbatim>\<open>yaml\<close> error prints line numbers only; the wrappers print
  their own text, the path they format (if any) and the wrapped error.
\<close>

fun errorPaths :: "error \<Rightarrow> path list" where
  "errorPaths (ChartPathNotExist p) = [p]"
| "errorPaths (OpenErr p) = [p]"
| "errorPaths YamlErr = []"
| "errorPaths (ReadDirErr p) = [p]"
| "errorPaths (UnlinkErr p) = [p]"
| "errorPaths (DeduplicationFailed e) = errorPaths e"
| "errorPaths (FailedToRemove p e) = p # errorPaths e"
| "errorPaths (FailedToReadChartYaml e) = errorPaths e"
| "errorPaths (FailedToParseChartYaml e) = errorPaths e"
| "errorPaths (FailedToReadChartsDir e) = errorPaths e"
| "errorPaths (FailedToRemoveDirectory p e) = p # errorPaths e"

text \<open>\<^verbatim>\<open>os.ReadFile\<close> then \<^verbatim>\<open>yaml.Unmarshal\<close>, as \<^verbatim>\<open>readChartYaml\<close> does.\<close>

definition readChartYaml :: "filesystem \<Rightarrow> path \<Rightarrow> error + dep list" where
  "readChartYaml fs p =
     (case lookupNode fs p of
        Some (File (Manifest ds)) \<Rightarrow> Inr ds
      | Some (File Malformed) \<Rightarrow> Inl YamlErr
      | _ \<Rightarrow> Inl (OpenErr p))"

text \<open>
  \<^verbatim>\<open>os.ReadDir\<close>: the entries of a directory, sorted by filename, each with its
  \<^verbatim>\<open>IsDir\<close> flag; an error when the path is not a directory.
\<close>

definition childNames :: "filesystem \<Rightarrow> path \<Rightarrow> string list" where
  "childNames fs d =
     sort (remdups [last q. (q, n) \<leftarrow> nodes fs, q \<noteq> [] \<and> butlast q = d \<and> validName (last q)])"

definition isDir :: "filesystem \<Rightarrow> path \<Rightarrow> bool" where
  "isDir fs p \<longleftrightarrow> lookupNode fs p = Some Dir"

definition readDir :: "filesystem \<Rightarrow> path \<Rightarrow> error + (string \<times> bool) list" where
  "readDir fs d =
     (if isDir fs d then Inr (map (\<lambda>n. (n, isDir fs (d @ [n]))) (childNames fs d))
      else Inl (ReadDirErr d))"

text \<open>
  \<^verbatim>\<open>os.RemoveAll\<close>: nothing to do (and no error) when the path does not exist;
  otherwise the path and everything below it disappears. It fails on the root and when
  something to unlink is locked; the model leaves the filesystem as it was then.
\<close>

definition removeAll_fs :: "filesystem \<Rightarrow> path \<Rightarrow> error + filesystem" where
  "removeAll_fs fs p =
     (if \<not> stat fs p then Inr fs
      else if p = [] \<or> (\<exists>q \<in> set (locked fs). prefix p q \<and> stat fs q) then Inl (UnlinkErr p)
      else Inr (fs\<lparr>nodes := filter (\<lambda>(q, n). \<not> prefix p q) (nodes fs)\<rparr>))"

section \<open>The deduplication engine\<close>

record dedup_options =
  ChartPath :: path
  OutputDir :: "path option"
  Package :: bool
  DryRun :: bool
  ShowDeleted :: bool
  Verbose :: bool

text \<open>\<^verbatim>\<open>Dependency.Key\<close>: \<^verbatim>\<open>fmt.Sprintf("%s-%s", d.Name, d.Version)\<close>.\<close>

definition Key :: "string \<Rightarrow> string \<Rightarrow> string" where
  "Key name version = name @ ''-'' @ version"

record ChartPath =
  Path :: path
  ParentPath :: path

record deduplicator =
  overallDependencies :: "string \<Rightarrow> ChartPath list option"
  currentDependencies :: "path list"
  deleteDependencies :: "path list"
  opts :: dedup_options

definition NewDeduplicator :: "dedup_options \<Rightarrow> deduplicator" where
  "NewDeduplicator os =
     \<lparr>overallDependencies = Map.empty, currentDependencies = [],
      deleteDependencies = [], opts = os\<rparr>"

text \<open>
  The inner loop of \<^verbatim>\<open>processDependencies\<close> over the occurrences already registered
  under the key. \<^verbatim>\<open>originalPath\<close> starts as the empty string, which no cleaned path
  is: it is \<open>None\<close> here until the first occurrence sets it. The loop stops
  (\<^verbatim>\<open>break\<close>) at an occurrence with the same path, with \<^verbatim>\<open>isTrueDuplicate\<close>
  reset to false.
\<close>

fun scanPaths :: "ChartPath list \<Rightarrow> path \<Rightarrow> path \<Rightarrow> bool \<Rightarrow> path option \<Rightarrow> bool \<times> path option" where
  "scanPaths [] depPath parentPath isTrueDuplicate originalPath = (isTrueDuplicate, originalPath)"
| "scanPaths (existing # rest) depPath parentPath isTrueDuplicate originalPath =
     (let originalPath' = (if originalPath = None then Some (Path existing) else originalPath)
      in if Path existing = depPath then (False, originalPath')
         else scanPaths rest depPath parentPath
                (if ParentPath existing = parentPath then True else isTrueDuplicate) originalPath')"

text \<open>The body of the loop over the declared dependencies of the chart at \<open>chartPath\<close>.\<close>

definition registerDependency :: "path \<Rightarrow> deduplicator \<Rightarrow> dep \<Rightarrow> deduplicator" where
  "registerDependency chartPath d dp =
     (let depKey = Key (Name dp) (Version dp);
          depPath = joinPath chartPath [''charts'', Name dp];
          parentPath = dirOf chartPath;
          newChartPath = \<lparr>Path = depPath, ParentPath = parentPath\<rparr>
      in case overallDependencies d depKey of
           Some paths \<Rightarrow>
             (case scanPaths paths depPath parentPath False None of
                (isTrueDuplicate, originalPath) \<Rightarrow>
                  if isTrueDuplicate then
                    (if Some depPath \<noteq> originalPath
                     then d\<lparr>deleteDependencies := deleteDependencies d @ [depPath]\<rparr>
                     else d\<lparr>overallDependencies := (overallDependencies d)(depKey \<mapsto> paths @ [newChartPath]),
                            currentDependencies := currentDependencies d @ [depPath]\<rparr>)
                  else d\<lparr>overallDependencies := (overallDependencies d)(depKey \<mapsto> paths @ [newChartPath]),
                         currentDependencies := currentDependencies d @ [depPath]\<rparr>)
         | None \<Rightarrow>
             d\<lparr>overallDependencies := (overallDependencies d)(depKey \<mapsto> [newChartPath]),
               currentDependencies := currentDependencies d @ [depPath]\<rparr>)"

definition registerAll :: "path \<Rightarrow> deduplicator \<Rightarrow> dep list \<Rightarrow> deduplicator" where
  "registerAll chartPath d deps = foldl (registerDependency chartPath) d deps"

text \<open>The first half of \<^verbatim>\<open>processDependencies\<close>: the manifest, when there is one.\<close>

definition processManifest :: "filesystem \<Rightarrow> deduplicator \<Rightarrow> path \<Rightarrow> error option \<times> deduplicator" where
  "processManifest fs d chartPath =
     (let chartYamlPath = joinPath chartPath [''Chart.yaml'']
      in if stat fs chartYamlPath then
           (case readChartYaml fs chartYamlPath of
              Inl e \<Rightarrow> (Some e, d)
            | Inr deps \<Rightarrow> (None, registerAll chartPath d deps))
         else (None, d))"

text \<open>The length of the longest path of the filesystem: the traversal's depth bound.\<close>

definition depth_fs :: "filesystem \<Rightarrow> nat" where
  "depth_fs fs = foldr (\<lambda>(q, n) m. max (length q) m) (nodes fs) 0"

lemma joinPath_charts: "joinPath p [''charts''] = p @ [''charts'']"
  by (simp add: joinPath_def cleanStep_def)

lemma joinPath_ChartYaml: "joinPath p [''Chart.yaml''] = p @ [''Chart.yaml'']"
  by (simp add: joinPath_def cleanStep_def)

lemma length_le_foldr_max:
  "(q, n) \<in> set ns \<Longrightarrow> length q \<le> foldr (\<lambda>(q, n) m. max (length q) m) ns 0"
  by (induction ns) auto

lemma stat_depth: "stat fs p \<Longrightarrow> length p \<le> depth_fs fs"
  unfolding stat_def lookupNode_def depth_fs_def
  by (auto dest!: map_of_SomeD intro: length_le_foldr_max)

text \<open>
  \<^verbatim>\<open>processDependencies\<close>, and its loop over the entries of the chart's
  \<^verbatim>\<open>charts\<close> directory. The receiver's fields are returned with the error, since
  the method updates them in place. \<^verbatim>\<open>filepath.Join(chartsDir, entry.Name())\<close>
  appends the entry's name, a single component.
\<close>

function processDependencies :: "filesystem \<Rightarrow> deduplicator \<Rightarrow> path \<Rightarrow> error option \<times> deduplicator"
  and processSubcharts :: "filesystem \<Rightarrow> deduplicator \<Rightarrow> path \<Rightarrow> (string \<times> bool) list \<Rightarrow> error option \<times> deduplicator"
where
  "processDependencies fs d chartPath =
     (case processManifest fs d chartPath of
        (Some e, d') \<Rightarrow> (Some e, d')
      | (None, d') \<Rightarrow>
          (let chartsDir = joinPath chartPath [''charts'']
           in if stat fs chartsDir then
                (case readDir fs chartsDir of
                   Inl e \<Rightarrow> (Some e, d')
                 | Inr entries \<Rightarrow> processSubcharts fs d' chartsDir entries)
              else (None, d')))"
| "processSubcharts fs d chartsDir [] = (None, d)"
| "processSubcharts fs d chartsDir ((name, entryIsDir) # rest) =
     (if entryIsDir then
        (let subChartPath = chartsDir @ [name]
         in if subChartPath \<in> set (deleteDependencies d) then processSubcharts fs d chartsDir rest
            else (case processDependencies fs d subChartPath of
                    (Some e, d') \<Rightarrow> (Some e, d')
                  | (None, d') \<Rightarrow> processSubcharts fs d' chartsDir rest))
      else processSubcharts fs d chartsDir rest)"
  by pat_completeness auto
termination
  apply (relation "measures [\<lambda>x. case x of Inl (fs, d, p) \<Rightarrow> depth_fs fs + 2 - length p
                                      | Inr (fs, d, dir, es) \<Rightarrow> depth_fs fs + 2 - length dir,
                             \<lambda>x. case x of Inl (fs, d, p) \<Rightarrow> 0 | Inr (fs, d, dir, es) \<Rightarrow> Suc (length es)]")
      apply (auto dest: stat_depth simp: joinPath_charts)
  done

text \<open>The deletions of \<^verbatim>\<open>DeduplicateChart\<close>, in the order of the deletion set.\<close>

fun removeEach :: "filesystem \<Rightarrow> path list \<Rightarrow> error option \<times> filesystem" where
  "removeEach fs [] = (None, fs)"
| "removeEach fs (p # ps) =
     (case removeAll_fs fs p of
        Inl e \<Rightarrow> (Some (FailedToRemove p e), fs)
      | Inr fs' \<Rightarrow> removeEach fs' ps)"

definition DeduplicateChart ::
  "filesystem \<Rightarrow> deduplicator \<Rightarrow> path \<Rightarrow> (error + path list) \<times> deduplicator \<times> filesystem" where
  "DeduplicateChart fs d chartPath =
     (case processDependencies fs d chartPath of
        (Some e, d') \<Rightarrow> (Inl e, d', fs)
      | (None, d') \<Rightarrow>
          if \<not> DryRun (opts d') then
            (case removeEach fs (deleteDependencies d') of
               (Some e, fs') \<Rightarrow> (Inl e, d', fs')
             | (None, fs') \<Rightarrow> (Inr (deleteDependencies d'), d', fs'))
          else (Inr (deleteDependencies d'), d', fs))"

text \<open>
  \<^verbatim>\<open>dedup.Run\<close>. The empty \<^verbatim>\<open>OutputDir\<close> is \<open>None\<close>; \<^verbatim>\<open>packageChart\<close>
  only prints and returns no error.
\<close>

definition dedup_Run :: "dedup_options \<Rightarrow> filesystem \<Rightarrow> error option \<times> filesystem" where
  "dedup_Run os fs =
     (if \<not> stat fs (ChartPath os) then (Some (ChartPathNotExist (ChartPath os)), fs)
      else
        (let os' = (if OutputDir os = None then os\<lparr>OutputDir := Some (ChartPath os)\<rparr> else os)
         in case DeduplicateChart fs (NewDeduplicator os') (ChartPath os') of
              (Inl e, d', fs') \<Rightarrow> (Some (DeduplicationFailed e), fs')
            | (Inr deletedPaths, d', fs') \<Rightarrow> (None, fs')))"

text \<open>
  \<open>visits fs (d, p) (d', q)\<close>: the call of \<^verbatim>\<open>processDependencies\<close> on the chart
  \<open>p\<close> in state \<open>d\<close> reaches, directly or through subcharts, the call on the chart
  \<open>q\<close> in state \<open>d'\<close>. A subchart is reached when the manifest of its parent was
  processed, the entries before it in the \<^verbatim>\<open>charts\<close> directory were processed without
  an error, and it is a directory that is not in the deletion set at that moment.
\<close>

inductive visits :: "filesystem \<Rightarrow> deduplicator \<times> path \<Rightarrow> deduplicator \<times> path \<Rightarrow> bool"
  for fs :: filesystem where
  visits_here: "visits fs (d, chartPath) (d, chartPath)"
| visits_sub:
    "processManifest fs d chartPath = (None, d1) \<Longrightarrow>
     chartsDir = joinPath chartPath [''charts''] \<Longrightarrow>
     stat fs chartsDir \<Longrightarrow>
     readDir fs chartsDir = Inr (before @ (name, True) # rest) \<Longrightarrow>
     processSubcharts fs d1 chartsDir before = (None, d2) \<Longrightarrow>
     chartsDir @ [name] \<notin> set (deleteDependencies d2) \<Longrightarrow>
     visits fs (d2, chartsDir @ [name]) (d', q) \<Longrightarrow>
     visits fs (d, chartPath) (d', q)"

text \<open>
  Every dependency name declared by a manifest of the filesystem is a single plain path
  component.
\<close>

definition plainNames :: "filesystem \<Rightarrow> bool" where
  "plainNames fs \<longleftrightarrow>
     list_all (\<lambda>(q, n). case n of File (Manifest deps) \<Rightarrow> list_all (\<lambda>dp. validName (Name dp)) deps | _ \<Rightarrow> True)
       (nodes fs)"

text \<open>
  \<open>p\<close> is \<^verbatim>\<open><chartDir>/charts/<name>\<close> for a chart directory at or below
  \<open>root\<close>: an immediate child of a \<^verbatim>\<open>charts\<close> directory, strictly below
  \<open>root\<close>.
\<close>

definition storedBelow :: "path \<Rightarrow> path \<Rightarrow> bool" where
  "storedBelow root p \<longleftrightarrow>
     length root + 2 \<le> length p \<and> prefix root p \<and> baseOf (dirOf p) = ''charts'' \<and> validName (baseOf p)"


section \<open>The cleanup engine\<close>

record cleanup_options =
  ChartPath :: path
  DryRun :: bool
  ShowDeleted :: bool
  Verbose :: bool

record cleaner =
  opts :: cleanup_options
  deletedPaths :: "path list"

definition NewCleaner :: "cleanup_options \<Rightarrow> cleaner" where
  "NewCleaner os = \<lparr>opts = os, deletedPaths = []\<rparr>"

text \<open>\<^verbatim>\<open>strings.TrimPrefix(s, pre)\<close>.\<close>

definition trimPrefix :: "string \<Rightarrow> string \<Rightarrow> string" where
  "trimPrefix s pre = (if prefix pre s then drop (length pre) s else s)"

text \<open>
  The source directory a \<^verbatim>\<open>file:\<close> repository names: both markers are trimmed in
  turn, then a leading \<^verbatim>\<open>./\<close>, and the rest is joined to the chart's path
  (\<^verbatim>\<open>filepath.Abs\<close> changes nothing on an absolute cleaned path).
\<close>

definition resolveTarget :: "path \<Rightarrow> string \<Rightarrow> path" where
  "resolveTarget chartPath repository =
     (let relPath = trimPrefix repository ''file://'';
          relPath = trimPrefix relPath ''file:'';
          relPath = (if prefix ''./'' relPath then drop 2 relPath else relPath)
      in joinPath chartPath [relPath])"

text \<open>
  The body of the loop of \<^verbatim>\<open>cleanupFileDependencies\<close> over the declared
  dependencies; \<open>(None, c, fs)\<close> with nothing changed is \<^verbatim>\<open>continue\<close>.
\<close>

definition cleanupDependency ::
  "filesystem \<Rightarrow> cleaner \<Rightarrow> path \<Rightarrow> dep \<Rightarrow> error option \<times> cleaner \<times> filesystem" where
  "cleanupDependency fs c chartPath dp =
     (if \<not> prefix ''file:'' (Repository dp) then (None, c, fs)
      else
        (let originalDirPath = resolveTarget chartPath (Repository dp)
         in if \<not> stat fs originalDirPath then (None, c, fs)
            else if baseOf (dirOf originalDirPath) = ''charts'' then (None, c, fs)
            else if \<not> DryRun (opts c) then
              (case removeAll_fs fs originalDirPath of
                 Inl e \<Rightarrow> (Some (FailedToRemoveDirectory originalDirPath e), c, fs)
               | Inr fs' \<Rightarrow> (None, c\<lparr>deletedPaths := deletedPaths c @ [originalDirPath]\<rparr>, fs'))
            else (None, c\<lparr>deletedPaths := deletedPaths c @ [originalDirPath]\<rparr>, fs)))"

fun cleanupDependencies ::
  "filesystem \<Rightarrow> cleaner \<Rightarrow> path \<Rightarrow> dep list \<Rightarrow> error option \<times> cleaner \<times> filesystem" where
  "cleanupDependencies fs c chartPath [] = (None, c, fs)"
| "cleanupDependencies fs c chartPath (dp # rest) =
     (case cleanupDependency fs c chartPath dp of
        (Some e, c', fs') \<Rightarrow> (Some e, c', fs')
      | (None, c', fs') \<Rightarrow> cleanupDependencies fs' c' chartPath rest)"

definition cleanupFileDependencies ::
  "filesystem \<Rightarrow> cleaner \<Rightarrow> path \<Rightarrow> error option \<times> cleaner \<times> filesystem" where
  "cleanupFileDependencies fs c chartPath =
     (let chartFile = joinPath chartPath [''Chart.yaml'']
      in case lookupNode fs chartFile of
           Some (File (Manifest deps)) \<Rightarrow> cleanupDependencies fs c chartPath deps
         | Some (File Malformed) \<Rightarrow> (Some (FailedToParseChartYaml YamlErr), c, fs)
         | _ \<Rightarrow> (Some (FailedToReadChartYaml (OpenErr chartFile)), c, fs))"

lemma foldr_max_filter:
  "foldr (\<lambda>(q, n) m. max (length q) m) (filter P ns) 0 \<le> foldr (\<lambda>(q, n) m. max (length q) m) ns (0::nat)"
  by (induction ns) (auto simp: max.coboundedI2)

lemma removeAll_fs_depth: "removeAll_fs fs p = Inr fs' \<Longrightarrow> depth_fs fs' \<le> depth_fs fs"
  by (auto simp: removeAll_fs_def depth_fs_def foldr_max_filter split: if_splits)

lemma cleanupDependency_depth:
  "cleanupDependency fs c chartPath dp = (r, c', fs') \<Longrightarrow> depth_fs fs' \<le> depth_fs fs"
  by (auto simp: cleanupDependency_def Let_def split: if_splits sum.splits dest: removeAll_fs_depth)

lemma cleanupDependencies_depth:
  "cleanupDependencies fs c chartPath deps = (r, c', fs') \<Longrightarrow> depth_fs fs' \<le> depth_fs fs"
proof (induction deps arbitrary: fs c)
  case Nil then show ?case by simp
next
  case (Cons dp rest)
  obtain r1 c1 fs1 where s: "cleanupDependency fs c chartPath dp = (r1, c1, fs1)"
    by (cases "cleanupDependency fs c chartPath dp") auto
  have le1: "depth_fs fs1 \<le> depth_fs fs" using s by (rule cleanupDependency_depth)
  show ?case
  proof (cases r1)
    case None
    with Cons.prems s have "cleanupDependencies fs1 c1 chartPath rest = (r, c', fs')" by simp
    from Cons.IH[OF this] le1 show ?thesis by simp
  next
    case (Some e)
    with Cons.prems s le1 show ?thesis by simp
  qed
qed

lemma cleanupFileDependencies_depth:
  "cleanupFileDependencies fs c chartPath = (r, c', fs') \<Longrightarrow> depth_fs fs' \<le> depth_fs fs"
  by (auto simp: cleanupFileDependencies_def Let_def
      split: option.splits node.splits content.splits dest: cleanupDependencies_depth)

text \<open>
  \<^verbatim>\<open>processChart\<close> and its loop over the entries of the \<^verbatim>\<open>charts\<close>
  directory. Removals happen during the traversal, so the filesystem is threaded through
  the calls, while the list of entries is the one read before the loop.
\<close>

function processChart :: "filesystem \<Rightarrow> cleaner \<Rightarrow> path \<Rightarrow> error option \<times> cleaner \<times> filesystem"
  and processSubdirs :: "filesystem \<Rightarrow> cleaner \<Rightarrow> path \<Rightarrow> (string \<times> bool) list \<Rightarrow> error option \<times> cleaner \<times> filesystem"
where
  "processChart fs c chartPath =
     (let chartFile = joinPath chartPath [''Chart.yaml'']
      in if \<not> stat fs chartFile then (None, c, fs)
         else
           (case cleanupFileDependencies fs c chartPath of
              (Some e, c', fs') \<Rightarrow> (Some e, c', fs')
            | (None, c', fs') \<Rightarrow>
                (let chartsDir = joinPath chartPath [''charts'']
                 in if stat fs' chartsDir then
                      (case readDir fs' chartsDir of
                         Inl e \<Rightarrow> (Some (FailedToReadChartsDir e), c', fs')
                       | Inr files \<Rightarrow> processSubdirs fs' c' chartsDir files)
                    else (None, c', fs'))))"
| "processSubdirs fs c chartsDir [] = (None, c, fs)"
| "processSubdirs fs c chartsDir ((name, entryIsDir) # rest) =
     (if entryIsDir then
        (case processChart fs c (chartsDir @ [name]) of
           (Some e, c', fs') \<Rightarrow> (Some e, c', fs')
         | (None, c', fs') \<Rightarrow> processSubdirs fs' c' chartsDir rest)
      else processSubdirs fs c chartsDir rest)"
  by pat_completeness auto

lemma processChart_depth_dom:
  "processChart_processSubdirs_dom (Inl (fs, c, p)) \<Longrightarrow> depth_fs (snd (snd (processChart fs c p))) \<le> depth_fs fs"
  "processChart_processSubdirs_dom (Inr (fs, c, dir, es)) \<Longrightarrow> depth_fs (snd (snd (processSubdirs fs c dir es))) \<le> depth_fs fs"
proof (induction fs c p and fs c dir es rule: processChart_processSubdirs.pinduct)
  case (1 fs c chartPath)
  show ?case
    using 1
    apply (simp add: processChart.psimps Let_def split: prod.splits option.splits sum.splits)
    apply (auto dest: cleanupFileDependencies_depth)
    apply (meson cleanupFileDependencies_depth le_trans)
    done
next
  case (2 fs c chartsDir)
  then show ?case by (simp add: processSubdirs.psimps)
next
  case (3 fs c chartsDir name entryIsDir rest)
  then show ?case
    apply (simp add: processSubdirs.psimps split: prod.splits option.splits)
    apply (auto)
    apply (meson le_trans)
    done
qed

lemma processChart_depth_dom_res:
  "processChart_processSubdirs_dom (Inl (fs, c, p)) \<Longrightarrow> (r, c', fs') = processChart fs c p \<Longrightarrow>
   depth_fs fs' \<le> depth_fs fs"
  using processChart_depth_dom(1)[of fs c p] by (metis snd_conv)

lemma cleanupFileDependencies_charts_depth:
  "(None, c', fs') = cleanupFileDependencies fs c p \<Longrightarrow> stat fs' (p @ [''charts'']) \<Longrightarrow>
   Suc (depth_fs fs') - length p < Suc (Suc (depth_fs fs)) - length p"
  using stat_depth[of fs' "p @ [''charts'']"] cleanupFileDependencies_depth[of fs c p None c' fs'] by simp

termination processChart
  apply (relation "measures [\<lambda>x. case x of Inl (fs, c, p) \<Rightarrow> depth_fs fs + 2 - length p
                                      | Inr (fs, c, dir, es) \<Rightarrow> depth_fs fs + 2 - length dir,
                             \<lambda>x. case x of Inl (fs, c, p) \<Rightarrow> 0 | Inr (fs, c, dir, es) \<Rightarrow> Suc (length es)]")
      apply (auto intro: cleanupFileDependencies_charts_depth dest: processChart_depth_dom_res
                  simp: joinPath_charts)
  done

text \<open>\<^verbatim>\<open>Cleaner.Cleanup\<close> (what it prints is left out) and \<^verbatim>\<open>cleanup.Run\<close>.\<close>

definition Cleanup :: "cleaner \<Rightarrow> filesystem \<Rightarrow> error option \<times> cleaner \<times> filesystem" where
  "Cleanup c fs = processChart fs c (cleanup_options.ChartPath (cleaner.opts c))"

definition cleanup_Run :: "cleanup_options \<Rightarrow> filesystem \<Rightarrow> error option \<times> cleaner \<times> filesystem" where
  "cleanup_Run os fs = Cleanup (NewCleaner os) fs"

text \<open>
  \<open>shrunk F G\<close>: the filesystem \<open>F\<close> is \<open>G\<close> after some removals: whatever
  exists in \<open>F\<close> exists in \<open>G\<close> and is the same there.
\<close>

definition shrunk :: "filesystem \<Rightarrow> filesystem \<Rightarrow> bool" where
  "shrunk F G \<longleftrightarrow> (\<forall>q. lookupNode F q = None \<or> lookupNode F q = lookupNode G q)"

text \<open>
  What a step of the cleanup engine may do to the cleaner and the filesystem: the
  deletion set grows by paths whose parent directory is not named \<^verbatim>\<open>charts\<close>, a node
  changes only below one of these paths, and a failed removal was never attempted on the
  child of a \<^verbatim>\<open>charts\<close> directory.
\<close>

definition cleaned :: "filesystem \<Rightarrow> cleaner \<Rightarrow> error option \<times> cleaner \<times> filesystem \<Rightarrow> bool" where
  "cleaned fs c res \<longleftrightarrow>
     (case res of (r, c', fs') \<Rightarrow>
        (\<exists>new. deletedPaths c' = deletedPaths c @ new
           \<and> (\<forall>q \<in> set new. baseOf (dirOf q) \<noteq> ''charts'')
           \<and> (\<forall>p. lookupNode fs' p = lookupNode fs p \<or> (\<exists>q \<in> set new. prefix q p)))
        \<and> (\<forall>p e. r = Some (FailedToRemoveDirectory p e) \<longrightarrow> baseOf (dirOf p) \<noteq> ''charts''))"

text \<open>
  \<open>reaches (fs, c, p) (fs', c', q)\<close>: the call of \<^verbatim>\<open>processChart\<close> on the chart
  \<open>p\<close>, with the filesystem \<open>fs\<close> and the cleaner \<open>c\<close>, reaches the call on the
  chart \<open>q\<close> with the filesystem \<open>fs'\<close> and the cleaner \<open>c'\<close>: each chart on the
  way has a manifest, its own dependencies were cleaned without an error, and so were the
  entries before the next chart in its \<^verbatim>\<open>charts\<close> directory.
\<close>

inductive reaches :: "filesystem \<times> cleaner \<times> path \<Rightarrow> filesystem \<times> cleaner \<times> path \<Rightarrow> bool" where
  reaches_here: "reaches (fs, c, chartPath) (fs, c, chartPath)"
| reaches_sub:
    "stat fs (joinPath chartPath [''Chart.yaml'']) \<Longrightarrow>
     cleanupFileDependencies fs c chartPath = (None, c1, fs1) \<Longrightarrow>
     chartsDir = joinPath chartPath [''charts''] \<Longrightarrow>
     stat fs1 chartsDir \<Longrightarrow>
     readDir fs1 chartsDir = Inr (before @ (name, True) # rest) \<Longrightarrow>
     processSubdirs fs1 c1 chartsDir before = (None, c2, fs2) \<Longrightarrow>
     reaches (fs2, c2, chartsDir @ [name]) t \<Longrightarrow>
     reaches (fs, c, chartPath) t"

text \<open>
  \<open>covers c c1 cd cd1\<close>: what a normal run added to its deletion set between the
  cleaners \<open>c\<close> and \<open>c1\<close> is a subsequence of what a dry run added between
  \<open>cd\<close> and \<open>cd1\<close>.
\<close>

definition covers :: "cleaner \<Rightarrow> cleaner \<Rightarrow> cleaner \<Rightarrow> cleaner \<Rightarrow> bool" where
  "covers c c1 cd cd1 \<longleftrightarrow>
     (\<exists>new newd. deletedPaths c1 = deletedPaths c @ new \<and> deletedPaths cd1 = deletedPaths cd @ newd
        \<and> subseq new newd)"

section \<open>Example trees\<close>

definition mkdep :: "string \<Rightarrow> string \<Rightarrow> dep" where
  "mkdep n v = \<lparr>Name = n, Version = v, Repository = []\<rparr>"

definition filedep :: "string \<Rightarrow> string \<Rightarrow> dep" where
  "filedep n r = \<lparr>Name = n, Version = ''1.0'', Repository = r\<rparr>"

definition dedupOpts :: "path \<Rightarrow> bool \<Rightarrow> dedup_options" where
  "dedupOpts root dry =
     \<lparr>dedup_options.ChartPath = root, OutputDir = None, Package = False,
      dedup_options.DryRun = dry, dedup_options.ShowDeleted = False,
      dedup_options.Verbose = False\<rparr>"

definition cleanupOpts :: "path \<Rightarrow> bool \<Rightarrow> cleanup_options" where
  "cleanupOpts root dry =
     \<lparr>cleanup_options.ChartPath = root, cleanup_options.DryRun = dry,
      cleanup_options.ShowDeleted = False, cleanup_options.Verbose = False\<rparr>"

text \<open>A filesystem holding the root directory only.\<close>

definition fs_bare :: filesystem where
  "fs_bare = \<lparr>nodes = [([], Dir)], locked = []\<rparr>"

text \<open>A chart \<^verbatim>\<open>/R\<close> whose subchart \<^verbatim>\<open>a\<close> has a manifest that does not parse.\<close>

definition fs_nested_malformed :: filesystem where
  "fs_nested_malformed =
     \<lparr>nodes = [([], Dir), ([''R''], Dir),
        ([''R'', ''Chart.yaml''], File (Manifest [mkdep ''a'' ''1''])),
        ([''R'', ''charts''], Dir),
        ([''R'', ''charts'', ''a''], Dir),
        ([''R'', ''charts'', ''a'', ''Chart.yaml''], File Malformed)],
      locked = []\<rparr>"

text \<open>
  Two sibling subcharts \<^verbatim>\<open>a\<close> and \<^verbatim>\<open>b\<close> of \<^verbatim>\<open>/R\<close>, each declaring
  \<^verbatim>\<open>x\<close> version \<^verbatim>\<open>1\<close>.
\<close>

definition fs_two_siblings :: filesystem where
  "fs_two_siblings =
     \<lparr>nodes = [([], Dir), ([''R''], Dir),
        ([''R'', ''Chart.yaml''], File (Manifest [])),
        ([''R'', ''charts''], Dir),
        ([''R'', ''charts'', ''a''], Dir),
        ([''R'', ''charts'', ''a'', ''Chart.yaml''], File (Manifest [mkdep ''x'' ''1''])),
        ([''R'', ''charts'', ''a'', ''charts''], Dir),
        ([''R'', ''charts'', ''a'', ''charts'', ''x''], Dir),
        ([''R'', ''charts'', ''b''], Dir),
        ([''R'', ''charts'', ''b'', ''Chart.yaml''], File (Manifest [mkdep ''x'' ''1''])),
        ([''R'', ''charts'', ''b'', ''charts''], Dir),
        ([''R'', ''charts'', ''b'', ''charts'', ''x''], Dir)],
      locked = []\<rparr>"

text \<open>
  A single chart \<^verbatim>\<open>/R\<close> declaring \<^verbatim>\<open>..-1\<close> version \<^verbatim>\<open>1\<close> and \<^verbatim>\<open>..\<close>
  version \<^verbatim>\<open>1-1\<close>: both have the key \<^verbatim>\<open>..-1-1\<close>, and the second one's expected
  location \<^verbatim>\<open>/R/charts/..\<close> is \<^verbatim>\<open>/R\<close> itself.
\<close>

definition fs_root_condemned :: filesystem where
  "fs_root_condemned =
     \<lparr>nodes = [([], Dir), ([''R''], Dir),
        ([''R'', ''Chart.yaml''], File (Manifest [mkdep ''..-1'' ''1'', mkdep ''..'' ''1-1'']))],
      locked = []\<rparr>"





text \<open>
  The chart \<^verbatim>\<open>/R\<close> declares \<^verbatim>\<open>localdb\<close> with the repository
  \<^verbatim>\<open>file:./localdb\<close>; the source directory \<^verbatim>\<open>/R/localdb\<close> and the copy
  \<^verbatim>\<open>/R/charts/localdb\<close> both exist. \<^verbatim>\<open>fs_local_dep_cleaned\<close> is the same tree
  without the source directory.
\<close>

definition fs_local_dep :: filesystem where
  "fs_local_dep =
     \<lparr>nodes = [([], Dir), ([''R''], Dir),
        ([''R'', ''Chart.yaml''], File (Manifest [filedep ''localdb'' ''file:./localdb''])),
        ([''R'', ''charts''], Dir),
        ([''R'', ''charts'', ''localdb''], Dir),
        ([''R'', ''charts'', ''localdb'', ''Chart.yaml''], File (Manifest [])),
        ([''R'', ''localdb''], Dir),
        ([''R'', ''localdb'', ''Chart.yaml''], File (Manifest []))],
      locked = []\<rparr>"

definition fs_local_dep_cleaned :: filesystem where
  "fs_local_dep_cleaned =
     \<lparr>nodes = [([], Dir), ([''R''], Dir),
        ([''R'', ''Chart.yaml''], File (Manifest [filedep ''localdb'' ''file:./localdb''])),
        ([''R'', ''charts''], Dir),
        ([''R'', ''charts'', ''localdb''], Dir),
        ([''R'', ''charts'', ''localdb'', ''Chart.yaml''], File (Manifest []))],
      locked = []\<rparr>"


text \<open>A chart \<^verbatim>\<open>/R\<close> whose subchart \<^verbatim>\<open>a\<close> has a manifest that cannot be read.\<close>

definition fs_nested_unreadable :: filesystem where
  "fs_nested_unreadable =
     \<lparr>nodes = [([], Dir), ([''R''], Dir),
        ([''R'', ''Chart.yaml''], File (Manifest [mkdep ''a'' ''1''])),
        ([''R'', ''charts''], Dir),
        ([''R'', ''charts'', ''a''], Dir),
        ([''R'', ''charts'', ''a'', ''Chart.yaml''], File Unreadable)],
      locked = []\<rparr>"

text \<open>
  The chart \<^verbatim>\<open>/R\<close> declares two dependencies, \<^verbatim>\<open>primary\<close> and \<^verbatim>\<open>replica\<close>,
  both from the local directory \<^verbatim>\<open>file:./db\<close>.
\<close>

definition fs_repeated_source :: filesystem where
  "fs_repeated_source =
     \<lparr>nodes = [([], Dir), ([''R''], Dir),
        ([''R'', ''Chart.yaml''],
           File (Manifest [filedep ''primary'' ''file:./db'', filedep ''replica'' ''file:./db''])),
        ([''R'', ''charts''], Dir),
        ([''R'', ''charts'', ''primary''], Dir),
        ([''R'', ''charts'', ''replica''], Dir),
        ([''R'', ''db''], Dir)],
      locked = []\<rparr>"

section \<open>Properties of the deduplication engine\<close>

subsection \<open>The classification of one occurrence\<close>




subsection \<open>The shape of the deletion set\<close>

lemma splitSep_plain: "CHR ''/'' \<notin> set n \<Longrightarrow> splitSep n = [n]"
  by (induction n) auto

lemma joinPath_charts_name: "validName n \<Longrightarrow> joinPath p [''charts'', n] = p @ [''charts'', n]"
  by (simp add: joinPath_def cleanStep_def validName_def splitSep_plain)

lemma storedBelow_child: "validName n \<Longrightarrow> storedBelow p (p @ [''charts'', n])"
  by (simp add: storedBelow_def baseOf_def dirOf_def butlast_append validName_def)

lemma storedBelow_mono: "prefix r c \<Longrightarrow> storedBelow c p \<Longrightarrow> storedBelow r p"
  by (auto simp: storedBelow_def dest: prefix_length_le)

lemma registerDependency_deleted:
  "deleteDependencies (registerDependency cp d dp) = deleteDependencies d \<or>
   deleteDependencies (registerDependency cp d dp) = deleteDependencies d @ [joinPath cp [''charts'', Name dp]]"
  by (simp add: registerDependency_def Let_def split: option.splits prod.splits)

lemma registerAll_deleted:
  "p \<in> set (deleteDependencies (registerAll cp d deps)) \<Longrightarrow>
   p \<in> set (deleteDependencies d) \<or> (\<exists>dp \<in> set deps. p = joinPath cp [''charts'', Name dp])"
proof (induction deps arbitrary: d)
  case Nil
  then show ?case by (simp add: registerAll_def)
next
  case (Cons dp deps)
  from Cons.prems have "p \<in> set (deleteDependencies (registerAll cp (registerDependency cp d dp) deps))"
    by (simp add: registerAll_def)
  from Cons.IH[OF this] registerDependency_deleted[of cp d dp] show ?case by auto
qed

lemma plainNames_manifest:
  "plainNames fs \<Longrightarrow> readChartYaml fs q = Inr deps \<Longrightarrow> dp \<in> set deps \<Longrightarrow> validName (Name dp)"
  by (auto simp: plainNames_def readChartYaml_def lookupNode_def list_all_iff
      split: option.splits node.splits content.splits dest!: map_of_SomeD)

lemma processManifest_deleted:
  assumes "plainNames fs" and "processManifest fs d cp = (r, d')" and "p \<in> set (deleteDependencies d')"
  shows "p \<in> set (deleteDependencies d) \<or> storedBelow cp p"
proof (cases "stat fs (joinPath cp [''Chart.yaml''])")
  case False
  with assms show ?thesis by (simp add: processManifest_def)
next
  case True
  show ?thesis
  proof (cases "readChartYaml fs (joinPath cp [''Chart.yaml''])")
    case (Inl e)
    with True assms show ?thesis by (simp add: processManifest_def)
  next
    case (Inr deps)
    with True assms have "p \<in> set (deleteDependencies (registerAll cp d deps))"
      by (simp add: processManifest_def)
    from registerAll_deleted[OF this] plainNames_manifest[OF assms(1) Inr]
    show ?thesis by (auto simp: joinPath_charts_name storedBelow_child)
  qed
qed

lemma traversal_deleted:
  "plainNames fs \<Longrightarrow> processDependencies fs d cp = (r, d') \<Longrightarrow> p \<in> set (deleteDependencies d') \<Longrightarrow>
     p \<in> set (deleteDependencies d) \<or> storedBelow cp p"
  "plainNames fs \<Longrightarrow> processSubcharts fs d dir es = (r, d') \<Longrightarrow> p \<in> set (deleteDependencies d') \<Longrightarrow>
     p \<in> set (deleteDependencies d) \<or> storedBelow dir p"
proof (induction fs d cp and fs d dir es arbitrary: r d' and r d' rule: processDependencies_processSubcharts.induct)
  case (1 fs d chartPath)
  obtain r1 d1 where m: "processManifest fs d chartPath = (r1, d1)"
    by (cases "processManifest fs d chartPath")
  have d1: "\<And>p. p \<in> set (deleteDependencies d1) \<Longrightarrow> p \<in> set (deleteDependencies d) \<or> storedBelow chartPath p"
    using processManifest_deleted[OF "1.prems"(1) m] by blast
  show ?case
  proof (cases "r1 = None \<and> stat fs (joinPath chartPath [''charts'']) \<and> (\<exists>es. readDir fs (joinPath chartPath [''charts'']) = Inr es)")
    case False
    with "1.prems" m have "d' = d1" by (auto simp: Let_def split: sum.splits option.splits if_splits)
    with d1 "1.prems"(3) show ?thesis by blast
  next
    case True
    then obtain es where es: "readDir fs (joinPath chartPath [''charts'']) = Inr es" by blast
    from True es m "1.prems"(2) have sub: "processSubcharts fs d1 (joinPath chartPath [''charts'']) es = (r, d')"
      by (simp add: Let_def)
    from True have r1: "r1 = None" and st: "stat fs (joinPath chartPath [''charts''])" by auto
    from "1.IH"[OF m[symmetric, unfolded r1] refl refl st es "1.prems"(1) sub "1.prems"(3)]
    have "p \<in> set (deleteDependencies d1) \<or> storedBelow (joinPath chartPath [''charts'']) p" .
    then show ?thesis
      using d1 storedBelow_mono[of chartPath "chartPath @ [''charts'']" p]
      by (auto simp: joinPath_charts)
  qed
next
  case (2 fs d chartsDir)
  then show ?case by simp
next
  case (3 fs d chartsDir name entryIsDir rest)
  show ?case
  proof (cases "entryIsDir \<and> chartsDir @ [name] \<notin> set (deleteDependencies d)")
    case False
    then have "processSubcharts fs d chartsDir ((name, entryIsDir) # rest) = processSubcharts fs d chartsDir rest"
      by (auto simp: Let_def)
    with "3.prems" have rest: "processSubcharts fs d chartsDir rest = (r, d')" by simp
    from False show ?thesis
    proof (cases entryIsDir)
      case True
      with False have "chartsDir @ [name] \<in> set (deleteDependencies d)" by simp
      from "3.IH"(1)[OF True refl this "3.prems"(1) rest "3.prems"(3)] show ?thesis .
    next
      case False
      from "3.IH"(4)[OF False "3.prems"(1) rest "3.prems"(3)] show ?thesis .
    qed
  next
    case True
    then have isd: entryIsDir and nd: "chartsDir @ [name] \<notin> set (deleteDependencies d)" by auto
    obtain r1 d1 where sub: "processDependencies fs d (chartsDir @ [name]) = (r1, d1)"
      by (cases "processDependencies fs d (chartsDir @ [name])")
    have d1: "p \<in> set (deleteDependencies d1) \<Longrightarrow> p \<in> set (deleteDependencies d) \<or> storedBelow chartsDir p"
      using "3.IH"(2)[OF isd refl nd "3.prems"(1) sub] storedBelow_mono[of chartsDir "chartsDir @ [name]"]
      by auto
    show ?thesis
    proof (cases r1)
      case (Some e)
      with sub isd nd "3.prems"(2) have "d' = d1" by (simp add: Let_def)
      with d1 "3.prems"(3) show ?thesis by blast
    next
      case None
      with sub isd nd "3.prems"(2) have rest: "processSubcharts fs d1 chartsDir rest = (r, d')"
        by (simp add: Let_def)
      from "3.IH"(3)[OF isd refl nd sub[symmetric, unfolded None] refl "3.prems"(1) rest "3.prems"(3)]
      show ?thesis using d1 by blast
    qed
  qed
qed


subsection \<open>An error ends the whole traversal\<close>

lemma processSubcharts_append:
  "processSubcharts fs d dir before = (None, d2) \<Longrightarrow>
   processSubcharts fs d dir (before @ rest) = processSubcharts fs d2 dir rest"
proof (induction before arbitrary: d)
  case Nil
  then show ?case by simp
next
  case (Cons entry before)
  obtain name isd where entry: "entry = (name, isd)" by (cases entry)
  show ?case
  proof (cases "isd \<and> dir @ [name] \<notin> set (deleteDependencies d)")
    case False
    then have skip: "\<And>xs. processSubcharts fs d dir (entry # xs) = processSubcharts fs d dir xs"
      unfolding entry by (auto simp: Let_def)
    from Cons.prems have "processSubcharts fs d dir before = (None, d2)" by (simp only: skip)
    from Cons.IH[OF this] show ?thesis by (simp only: skip append_Cons)
  next
    case True
    obtain r d1 where sub: "processDependencies fs d (dir @ [name]) = (r, d1)"
      by (cases "processDependencies fs d (dir @ [name])")
    with Cons.prems entry True have r: "r = None" and rest: "processSubcharts fs d1 dir before = (None, d2)"
      by (auto simp: Let_def split: option.splits)
    from Cons.IH[OF rest] sub r entry True show ?thesis by (simp add: Let_def)
  qed
qed

lemma visits_error_propagates:
  "visits fs s t \<Longrightarrow> fst (processDependencies fs (fst t) (snd t)) = Some e \<Longrightarrow>
   fst (processDependencies fs (fst s) (snd s)) = Some e"
proof (induction rule: visits.induct)
  case (visits_here d chartPath)
  then show ?case by simp
next
  case (visits_sub d chartPath d1 chartsDir before name rest d2 d' q)
  from visits_sub.IH visits_sub.prems
  obtain d3 where sub: "processDependencies fs d2 (chartsDir @ [name]) = (Some e, d3)"
    by (cases "processDependencies fs d2 (chartsDir @ [name])") auto
  have "processSubcharts fs d1 chartsDir (before @ (name, True) # rest) = (Some e, d3)"
    using processSubcharts_append[OF visits_sub.hyps(5)] visits_sub.hyps(6) sub
    by (simp add: Let_def)
  with visits_sub.hyps(1-4) show ?case by simp
qed

lemma bad_manifest_fails:
  "stat fs (joinPath q [''Chart.yaml'']) \<Longrightarrow> readChartYaml fs (joinPath q [''Chart.yaml'']) = Inl e \<Longrightarrow>
   fst (processDependencies fs d q) = Some e"
  by (simp add: processManifest_def)


text \<open>
  C8. An occurrence whose path is already registered under its key is meant to be
  skipped, leaving registry, kept list and deletion set as they are. In the code the
  inner loop stops with \<^verbatim>\<open>isTrueDuplicate = false\<close>, and the branch taken then registers
  the occurrence again: a chart at \<^verbatim>\<open>/R\<close> declaring \<^verbatim>\<open>x\<close> version \<^verbatim>\<open>1\<close> twice ends
  with the same occurrence twice in the registry and twice in the kept list. Only the
  deletion set is left alone.
\<close>

theorem same_path_registered_again:
  "overallDependencies (registerAll [''R''] (NewDeduplicator (dedupOpts [''R''] False)) [mkdep ''x'' ''1'']) ''x-1''
     = Some [\<lparr>Path = [''R'', ''charts'', ''x''], ParentPath = []\<rparr>]
   \<and> overallDependencies
       (registerAll [''R''] (NewDeduplicator (dedupOpts [''R''] False)) [mkdep ''x'' ''1'', mkdep ''x'' ''1'']) ''x-1''
     = Some [\<lparr>Path = [''R'', ''charts'', ''x''], ParentPath = []\<rparr>,
             \<lparr>Path = [''R'', ''charts'', ''x''], ParentPath = []\<rparr>]
   \<and> currentDependencies
       (registerAll [''R''] (NewDeduplicator (dedupOpts [''R''] False)) [mkdep ''x'' ''1'', mkdep ''x'' ''1''])
     = [[''R'', ''charts'', ''x''], [''R'', ''charts'', ''x'']]
   \<and> deleteDependencies
       (registerAll [''R''] (NewDeduplicator (dedupOpts [''R''] False)) [mkdep ''x'' ''1'', mkdep ''x'' ''1''])
     = []"
  by (simp add: registerAll_def registerDependency_def NewDeduplicator_def mkdep_def Key_def
      joinPath_def cleanStep_def dirOf_def Let_def)

text \<open>
  C5. When the traversal reaches a chart whose manifest is present but cannot be read or
  parsed, \<^verbatim>\<open>DeduplicateChart\<close> returns that error and the filesystem is the one it
  started with: nothing was removed before the failing chart, and nothing after, in
  dry-run and in normal mode alike.
\<close>

theorem dedup_bad_manifest_aborts_without_deletion:
  assumes "visits fs (d, root) (d', q)"
    and "stat fs (joinPath q [''Chart.yaml''])"
    and "readChartYaml fs (joinPath q [''Chart.yaml'']) = Inl e"
  shows "\<exists>d''. DeduplicateChart fs d root = (Inl e, d'', fs)"
proof -
  have "fst (processDependencies fs d' q) = Some e"
    using assms(2,3) by (rule bad_manifest_fails)
  with visits_error_propagates[OF assms(1)] have "fst (processDependencies fs d root) = Some e"
    by simp
  then obtain d'' where "processDependencies fs d root = (Some e, d'')"
    by (cases "processDependencies fs d root") auto
  then show ?thesis by (simp add: DeduplicateChart_def)
qed

theorem dedup_bad_manifest_aborts_without_deletion_witness:
  "visits fs_nested_malformed
     (NewDeduplicator (dedupOpts [''R''] False), [''R''])
     (registerAll [''R''] (NewDeduplicator (dedupOpts [''R''] False)) [mkdep ''a'' ''1''], [''R'', ''charts'', ''a''])
   \<and> stat fs_nested_malformed (joinPath [''R'', ''charts'', ''a''] [''Chart.yaml''])
   \<and> readChartYaml fs_nested_malformed (joinPath [''R'', ''charts'', ''a''] [''Chart.yaml'']) = Inl YamlErr
   \<and> (\<exists>d''. DeduplicateChart fs_nested_malformed (NewDeduplicator (dedupOpts [''R''] False)) [''R'']
              = (Inl YamlErr, d'', fs_nested_malformed))"
proof -
  let ?d0 = "NewDeduplicator (dedupOpts [''R''] False)"
  let ?d1 = "registerAll [''R''] ?d0 [mkdep ''a'' ''1'']"
  have m: "processManifest fs_nested_malformed ?d0 [''R''] = (None, ?d1)"
    by (simp add: processManifest_def joinPath_ChartYaml stat_def lookupNode_def readChartYaml_def
        fs_nested_malformed_def)
  have s: "stat fs_nested_malformed [''R'', ''charts'']"
    by (simp add: stat_def lookupNode_def fs_nested_malformed_def)
  have r: "readDir fs_nested_malformed [''R'', ''charts''] = Inr ([] @ (''a'', True) # [])"
    by (simp add: readDir_def isDir_def lookupNode_def childNames_def validName_def
        fs_nested_malformed_def)
  have n: "[''R'', ''charts''] @ [''a''] \<notin> set (deleteDependencies ?d1)"
    by (simp add: registerAll_def registerDependency_def NewDeduplicator_def mkdep_def Let_def)
  have v: "visits fs_nested_malformed (?d0, [''R'']) (?d1, [''R'', ''charts'', ''a''])"
  proof (rule visits_sub[where chartsDir = "[''R'', ''charts'']" and before = "[]"
        and name = "''a''" and rest = "[]" and ?d2.0 = ?d1, OF m])
    show "[''R'', ''charts''] = joinPath [''R''] [''charts'']" by (simp add: joinPath_charts)
    show "stat fs_nested_malformed [''R'', ''charts'']" by (rule s)
    show "readDir fs_nested_malformed [''R'', ''charts''] = Inr ([] @ [(''a'', True)])" using r by simp
    show "processSubcharts fs_nested_malformed ?d1 [''R'', ''charts''] [] = (None, ?d1)" by simp
    show "[''R'', ''charts''] @ [''a''] \<notin> set (deleteDependencies ?d1)" by (rule n)
    show "visits fs_nested_malformed (?d1, [''R'', ''charts''] @ [''a'']) (?d1, [''R'', ''charts'', ''a''])"
      using visits_here[of fs_nested_malformed ?d1 "[''R'', ''charts'', ''a'']"] by simp
  qed
  have st: "stat fs_nested_malformed (joinPath [''R'', ''charts'', ''a''] [''Chart.yaml''])"
    by (simp add: joinPath_ChartYaml stat_def lookupNode_def fs_nested_malformed_def)
  have rd: "readChartYaml fs_nested_malformed (joinPath [''R'', ''charts'', ''a''] [''Chart.yaml'']) = Inl YamlErr"
    by (simp add: joinPath_ChartYaml readChartYaml_def lookupNode_def fs_nested_malformed_def)
  from dedup_bad_manifest_aborts_without_deletion[OF v st rd] v st rd show ?thesis by blast
qed

text \<open>
  C10, as amended. When every declared dependency name is a single plain component, every
  path in the deletion set after a run that started with a fresh engine is
  \<^verbatim>\<open><chartDir>/charts/<name>\<close> for a chart directory at or below the root chart
  path: an immediate child of a \<^verbatim>\<open>charts\<close> directory, and never the root chart path.
\<close>

theorem deleted_paths_are_stored_dependencies:
  assumes "plainNames fs"
    and "DeduplicateChart fs (NewDeduplicator os) root = (res, d', fs')"
    and "p \<in> set (deleteDependencies d')"
  shows "storedBelow root p \<and> p \<noteq> root"
proof -
  obtain r d1 where run: "processDependencies fs (NewDeduplicator os) root = (r, d1)"
    by (cases "processDependencies fs (NewDeduplicator os) root")
  with assms(2) have "d' = d1"
    by (auto simp: DeduplicateChart_def split: option.splits if_splits prod.splits)
  with assms(3) have "p \<in> set (deleteDependencies d1)" by simp
  from traversal_deleted(1)[OF assms(1) run this] have "storedBelow root p"
    by (simp add: NewDeduplicator_def)
  then show ?thesis by (auto simp: storedBelow_def)
qed

theorem deleted_paths_are_stored_dependencies_witness:
  "plainNames fs_two_siblings
   \<and> [''R'', ''charts'', ''b'', ''charts'', ''x'']
       \<in> set (deleteDependencies (fst (snd (DeduplicateChart fs_two_siblings
                 (NewDeduplicator (dedupOpts [''R''] True)) [''R'']))))
   \<and> storedBelow [''R''] [''R'', ''charts'', ''b'', ''charts'', ''x'']
   \<and> [''R'', ''charts'', ''b'', ''charts'', ''x''] \<noteq> [''R'']"
proof -
  have h1: "plainNames fs_two_siblings" by code_simp
  have h3: "[''R'', ''charts'', ''b'', ''charts'', ''x'']
       \<in> set (deleteDependencies (fst (snd (DeduplicateChart fs_two_siblings
                 (NewDeduplicator (dedupOpts [''R''] True)) [''R'']))))"
    by code_simp
  have h2: "DeduplicateChart fs_two_siblings (NewDeduplicator (dedupOpts [''R''] True)) [''R'']
      = (fst (DeduplicateChart fs_two_siblings (NewDeduplicator (dedupOpts [''R''] True)) [''R'']),
         fst (snd (DeduplicateChart fs_two_siblings (NewDeduplicator (dedupOpts [''R''] True)) [''R''])),
         snd (snd (DeduplicateChart fs_two_siblings (NewDeduplicator (dedupOpts [''R''] True)) [''R''])))"
    by simp
  from deleted_paths_are_stored_dependencies[OF h1 h2 h3] h1 h3 show ?thesis by simp
qed

text \<open>
  C10 as stated fails: on \<^verbatim>\<open>fs_root_condemned\<close> the deletion set is the root chart
  path itself, which is not the child of a \<^verbatim>\<open>charts\<close> directory, and the run removes
  the whole chart.
\<close>

theorem root_chart_condemned:
  "fst (DeduplicateChart fs_root_condemned (NewDeduplicator (dedupOpts [''R''] False)) [''R''])
     = Inr [[''R'']]
   \<and> baseOf (dirOf [''R'']) \<noteq> ''charts''
   \<and> stat fs_root_condemned [''R'']
   \<and> \<not> stat (snd (snd (DeduplicateChart fs_root_condemned
                (NewDeduplicator (dedupOpts [''R''] False)) [''R'']))) [''R'']"
  by code_simp







section \<open>Properties of the cleanup engine\<close>

subsection \<open>Removals only shrink the filesystem\<close>

lemma shrunk_refl: "shrunk F F"
  by (simp add: shrunk_def)

lemma shrunk_trans: "shrunk F G \<Longrightarrow> shrunk G H \<Longrightarrow> shrunk F H"
  unfolding shrunk_def by metis

lemma shrunk_stat: "shrunk F G \<Longrightarrow> stat F q \<Longrightarrow> stat G q"
  unfolding shrunk_def stat_def by metis

lemma shrunk_lookup: "shrunk F G \<Longrightarrow> stat F q \<Longrightarrow> lookupNode F q = lookupNode G q"
  unfolding shrunk_def stat_def by metis

lemma map_of_filter_key:
  "map_of (filter (\<lambda>(q, n). P q) xs) k = (if P k then map_of xs k else None)"
  by (induction xs) auto

lemma removeAll_fs_lookup:
  "removeAll_fs fs p = Inr fs' \<Longrightarrow>
   lookupNode fs' q = (if stat fs p \<and> prefix p q then None else lookupNode fs q)"
  by (auto simp: removeAll_fs_def lookupNode_def map_of_filter_key split: if_splits)

lemma removeAll_fs_shrunk: "removeAll_fs fs p = Inr fs' \<Longrightarrow> shrunk fs' fs"
  by (simp add: shrunk_def removeAll_fs_lookup)

lemma removeAll_fs_gone: "removeAll_fs fs p = Inr fs' \<Longrightarrow> \<not> stat fs' p"
  by (auto simp: stat_def removeAll_fs_lookup)

lemma cleanupDependency_shrunk:
  "cleanupDependency fs c cp dp = (r, c', fs') \<Longrightarrow> shrunk fs' fs"
  by (auto simp: cleanupDependency_def Let_def shrunk_refl split: if_splits sum.splits
      dest: removeAll_fs_shrunk)

lemma cleanupDependency_opts:
  "cleanupDependency fs c cp dp = (r, c', fs') \<Longrightarrow> cleaner.opts c' = cleaner.opts c"
  by (auto simp: cleanupDependency_def Let_def split: if_splits sum.splits)

lemma cleanupDependencies_shrunk_opts:
  "cleanupDependencies fs c cp deps = (r, c', fs') \<Longrightarrow> shrunk fs' fs \<and> cleaner.opts c' = cleaner.opts c"
proof (induction deps arbitrary: fs c)
  case Nil
  then show ?case by (simp add: shrunk_refl)
next
  case (Cons dp deps)
  obtain r1 c1 fs1 where s: "cleanupDependency fs c cp dp = (r1, c1, fs1)"
    by (cases "cleanupDependency fs c cp dp") auto
  note a = cleanupDependency_shrunk[OF s] cleanupDependency_opts[OF s]
  show ?case
  proof (cases r1)
    case None
    with Cons.prems s have "cleanupDependencies fs1 c1 cp deps = (r, c', fs')" by simp
    from Cons.IH[OF this] a show ?thesis by (auto intro: shrunk_trans)
  next
    case (Some e)
    with Cons.prems s a show ?thesis by simp
  qed
qed

lemma cleanupFileDependencies_shrunk_opts:
  "cleanupFileDependencies fs c cp = (r, c', fs') \<Longrightarrow> shrunk fs' fs \<and> cleaner.opts c' = cleaner.opts c"
  by (auto simp: cleanupFileDependencies_def Let_def shrunk_refl
      split: option.splits node.splits content.splits dest: cleanupDependencies_shrunk_opts)

lemma traversal_shrunk_opts:
  "processChart fs c p = (r, c', fs') \<Longrightarrow> shrunk fs' fs \<and> cleaner.opts c' = cleaner.opts c"
  "processSubdirs fs c dir es = (r, c', fs') \<Longrightarrow> shrunk fs' fs \<and> cleaner.opts c' = cleaner.opts c"
proof (induction fs c p and fs c dir es arbitrary: r c' fs' and r c' fs'
    rule: processChart_processSubdirs.induct)
  case (1 fs c chartPath)
  show ?case
  proof (cases "stat fs (joinPath chartPath [''Chart.yaml''])")
    case False
    with "1.prems" show ?thesis by (simp add: shrunk_refl)
  next
    case True
    obtain r1 c1 fs1 where f: "cleanupFileDependencies fs c chartPath = (r1, c1, fs1)"
      by (cases "cleanupFileDependencies fs c chartPath") auto
    note a = cleanupFileDependencies_shrunk_opts[OF f]
    show ?thesis
    proof (cases "r1 = None \<and> stat fs1 (joinPath chartPath [''charts'']) \<and>
                  (\<exists>files. readDir fs1 (joinPath chartPath [''charts'']) = Inr files)")
      case False
      with "1.prems" True f have "c' = c1 \<and> fs' = fs1"
        by (auto simp: Let_def split: option.splits sum.splits if_splits)
      with a show ?thesis by simp
    next
      case t: True
      then obtain files where files: "readDir fs1 (joinPath chartPath [''charts'']) = Inr files" by blast
      from t have r1: "r1 = None" and st: "stat fs1 (joinPath chartPath [''charts''])" by auto
      from "1.prems" True f r1 st files
      have sub: "processSubdirs fs1 c1 (joinPath chartPath [''charts'']) files = (r, c', fs')"
        by (simp add: Let_def)
      have nst: "\<not> \<not> stat fs (joinPath chartPath [''Chart.yaml''])" using True by simp
      from "1.IH"[OF refl nst f[symmetric, unfolded r1] refl refl refl st files sub] a
      show ?thesis by (auto intro: shrunk_trans)
    qed
  qed
next
  case (2 fs c chartsDir)
  then show ?case by (simp add: shrunk_refl)
next
  case (3 fs c chartsDir name entryIsDir rest)
  show ?case
  proof (cases entryIsDir)
    case False
    with "3.prems" have "processSubdirs fs c chartsDir rest = (r, c', fs')" by simp
    from "3.IH"(3)[OF False this] show ?thesis .
  next
    case True
    obtain r1 c1 fs1 where s: "processChart fs c (chartsDir @ [name]) = (r1, c1, fs1)"
      by (cases "processChart fs c (chartsDir @ [name])") auto
    note a = "3.IH"(1)[OF True s]
    show ?thesis
    proof (cases r1)
      case (Some e)
      with "3.prems" True s a show ?thesis by simp
    next
      case None
      with "3.prems" True s have rest: "processSubdirs fs1 c1 chartsDir rest = (r, c', fs')" by simp
      from "3.IH"(2)[OF True s[symmetric, unfolded None] refl refl rest] a
      show ?thesis by (auto intro: shrunk_trans)
    qed
  qed
qed

text \<open>
  C6. A root chart path that does not exist is to be rejected before the traversal
  starts. \<^verbatim>\<open>dedup.Run\<close> does so. \<^verbatim>\<open>cleanup.Run\<close> has no such check: the first
  \<^verbatim>\<open>processChart\<close> finds no manifest, returns without an error, and the run reports
  success with nothing deleted.
\<close>

theorem missing_root_dedup_rejects_cleanup_succeeds:
  "\<not> stat fs_bare [''nowhere'']
   \<and> dedup_Run (dedupOpts [''nowhere''] False) fs_bare = (Some (ChartPathNotExist [''nowhere'']), fs_bare)
   \<and> cleanup_Run (cleanupOpts [''nowhere''] False) fs_bare
       = (None, NewCleaner (cleanupOpts [''nowhere''] False), fs_bare)"
  by (simp add: dedup_Run_def cleanup_Run_def Cleanup_def NewCleaner_def dedupOpts_def cleanupOpts_def
      stat_def lookupNode_def fs_bare_def joinPath_ChartYaml)

subsection \<open>A second run finds nothing\<close>

lemma cleanupDependency_again:
  assumes "cleanupDependency fs c cp dp = (None, c1, fs1)"
    and "\<not> cleanup_options.DryRun (cleaner.opts c)"
    and "shrunk F fs1"
  shows "cleanupDependency F c0 cp dp = (None, c0, F)"
proof (cases "prefix ''file:'' (Repository dp) \<and> stat F (resolveTarget cp (Repository dp))
              \<and> baseOf (dirOf (resolveTarget cp (Repository dp))) \<noteq> ''charts''")
  case False
  then show ?thesis by (auto simp: cleanupDependency_def Let_def)
next
  case True
  then have st1: "stat fs1 (resolveTarget cp (Repository dp))"
    using shrunk_stat[OF assms(3)] by blast
  show ?thesis
  proof (cases "stat fs (resolveTarget cp (Repository dp))")
    case False
    with assms(1) True have "fs1 = fs" by (simp add: cleanupDependency_def Let_def)
    with st1 False show ?thesis by simp
  next
    case st: True
    with assms(1,2) True have "removeAll_fs fs (resolveTarget cp (Repository dp)) = Inr fs1"
      by (auto simp: cleanupDependency_def Let_def split: sum.splits)
    from removeAll_fs_gone[OF this] st1 show ?thesis by simp
  qed
qed

lemma cleanupDependencies_again:
  "cleanupDependencies fs c cp deps = (None, c1, fs1) \<Longrightarrow>
   \<not> cleanup_options.DryRun (cleaner.opts c) \<Longrightarrow> shrunk F fs1 \<Longrightarrow>
   cleanupDependencies F c0 cp deps = (None, c0, F)"
proof (induction deps arbitrary: fs c)
  case Nil
  then show ?case by simp
next
  case (Cons dp deps)
  obtain r2 c2 fs2 where s: "cleanupDependency fs c cp dp = (r2, c2, fs2)"
    by (cases "cleanupDependency fs c cp dp") auto
  with Cons.prems(1) have r2: "r2 = None" and rest: "cleanupDependencies fs2 c2 cp deps = (None, c1, fs1)"
    by (auto split: option.splits)
  have o2: "\<not> cleanup_options.DryRun (cleaner.opts c2)"
    using cleanupDependency_opts[OF s] Cons.prems(2) by simp
  have "shrunk F fs2"
    using cleanupDependencies_shrunk_opts[OF rest] Cons.prems(3) by (blast intro: shrunk_trans)
  from cleanupDependency_again[OF s[unfolded r2] Cons.prems(2) this, of c0]
    Cons.IH[OF rest o2 Cons.prems(3)]
  show ?case by simp
qed

lemma cleanupFileDependencies_again:
  assumes "cleanupFileDependencies fs c cp = (None, c1, fs1)"
    and "\<not> cleanup_options.DryRun (cleaner.opts c)"
    and "shrunk F fs1"
    and "stat F (joinPath cp [''Chart.yaml''])"
  shows "cleanupFileDependencies F c0 cp = (None, c0, F)"
proof -
  from assms(1) obtain deps where
    m: "lookupNode fs (joinPath cp [''Chart.yaml'']) = Some (File (Manifest deps))"
    and run: "cleanupDependencies fs c cp deps = (None, c1, fs1)"
    by (auto simp: cleanupFileDependencies_def Let_def split: option.splits node.splits content.splits)
  have "shrunk F fs"
    using cleanupFileDependencies_shrunk_opts[OF assms(1)] assms(3) by (blast intro: shrunk_trans)
  from shrunk_lookup[OF this assms(4)] m
  have "lookupNode F (joinPath cp [''Chart.yaml'']) = Some (File (Manifest deps))" by simp
  with cleanupDependencies_again[OF run assms(2,3), of c0] show ?thesis
    by (simp add: cleanupFileDependencies_def Let_def)
qed

lemma processSubdirs_nothing:
  "(\<And>n. (n, True) \<in> set es \<Longrightarrow> processChart F c0 (dir @ [n]) = (None, c0, F)) \<Longrightarrow>
   processSubdirs F c0 dir es = (None, c0, F)"
proof (induction es)
  case Nil
  then show ?case by simp
next
  case (Cons entry es)
  obtain n isd where entry: "entry = (n, isd)" by (cases entry)
  have rest: "processSubdirs F c0 dir es = (None, c0, F)"
    using Cons by simp
  show ?case
  proof (cases isd)
    case True
    with Cons.prems[of n] entry have "processChart F c0 (dir @ [n]) = (None, c0, F)" by simp
    with rest entry True show ?thesis by simp
  next
    case False
    with rest entry show ?thesis by simp
  qed
qed

lemma childNames_iff:
  "n \<in> set (childNames fs d) \<longleftrightarrow> validName n \<and> stat fs (d @ [n])"
proof
  assume "n \<in> set (childNames fs d)"
  then obtain q nd where q: "(q, nd) \<in> set (nodes fs)" "q \<noteq> []" "butlast q = d"
    and v: "validName (last q)" and n: "n = last q"
    by (auto simp: childNames_def)
  from q(2,3) n have "q = d @ [n]" by (metis append_butlast_last_id)
  moreover from weak_map_of_SomeI[OF q(1)] have "stat fs q" by (auto simp: stat_def lookupNode_def)
  ultimately show "validName n \<and> stat fs (d @ [n])" using v n by simp
next
  assume a: "validName n \<and> stat fs (d @ [n])"
  then obtain nd where "map_of (nodes fs) (d @ [n]) = Some nd"
    by (auto simp: stat_def lookupNode_def)
  then have "(d @ [n], nd) \<in> set (nodes fs)" by (rule map_of_SomeD)
  then have "last (d @ [n]) \<in> set [last q. (q, nd) \<leftarrow> nodes fs, q \<noteq> [] \<and> butlast q = d \<and> validName (last q)]"
    using a by force
  then show "n \<in> set (childNames fs d)" by (simp add: childNames_def)
qed

lemma readDir_shrunk:
  assumes "shrunk F G" and "readDir F d = Inr es" and "readDir G d = Inr es'" and "(n, True) \<in> set es"
  shows "(n, True) \<in> set es'"
proof -
  from assms(2,4) have n: "n \<in> set (childNames F d)" and isd: "isDir F (d @ [n])"
    by (auto simp: readDir_def split: if_splits)
  from n have v: "validName n" and st: "stat F (d @ [n])" by (simp_all add: childNames_iff)
  from shrunk_stat[OF assms(1) st] v have "n \<in> set (childNames G d)" by (simp add: childNames_iff)
  moreover from shrunk_lookup[OF assms(1) st] isd have "isDir G (d @ [n])" by (simp add: isDir_def)
  ultimately show ?thesis using assms(3) by (auto simp: readDir_def split: if_splits)
qed

lemma readDir_shrunk_ok:
  assumes "shrunk F G" and "stat F d" and "readDir G d = Inr es'"
  shows "\<exists>es. readDir F d = Inr es"
proof -
  from assms(3) have "isDir G d" by (auto simp: readDir_def split: if_splits)
  with shrunk_lookup[OF assms(1,2)] have "isDir F d" by (simp add: isDir_def)
  then show ?thesis by (simp add: readDir_def)
qed

lemma traversal_again:
  "processChart fs c p = (None, c', fs') \<Longrightarrow> \<not> cleanup_options.DryRun (cleaner.opts c) \<Longrightarrow>
   shrunk F fs' \<Longrightarrow> processChart F c0 p = (None, c0, F)"
  "processSubdirs fs c dir es = (None, c', fs') \<Longrightarrow> \<not> cleanup_options.DryRun (cleaner.opts c) \<Longrightarrow>
   shrunk F fs' \<Longrightarrow> (n, True) \<in> set es \<Longrightarrow> processChart F c0 (dir @ [n]) = (None, c0, F)"
proof (induction fs c p and fs c dir es arbitrary: c' fs' and c' fs' n
    rule: processChart_processSubdirs.induct)
  case (1 fs c chartPath)
  let ?mf = "joinPath chartPath [''Chart.yaml'']"
  let ?dir = "joinPath chartPath [''charts'']"
  show ?case
  proof (cases "stat F ?mf")
    case False
    then show ?thesis by simp
  next
    case stF: True
    have Ffs: "shrunk F fs"
      using traversal_shrunk_opts(1)[OF "1.prems"(1)] "1.prems"(3) by (blast intro: shrunk_trans)
    have st: "stat fs ?mf" using shrunk_stat[OF Ffs stF] .
    obtain r1 c1 fs1 where f: "cleanupFileDependencies fs c chartPath = (r1, c1, fs1)"
      by (cases "cleanupFileDependencies fs c chartPath") auto
    with "1.prems"(1) st have r1: "r1 = None" by (auto simp: Let_def split: option.splits)
    note f = f[unfolded r1]
    have o1: "\<not> cleanup_options.DryRun (cleaner.opts c1)"
      using cleanupFileDependencies_shrunk_opts[OF f] "1.prems"(2) by simp
    have tail: "(if stat fs1 ?dir then
                   (case readDir fs1 ?dir of Inl e \<Rightarrow> (Some (FailedToReadChartsDir e), c1, fs1)
                    | Inr files \<Rightarrow> processSubdirs fs1 c1 ?dir files)
                 else (None, c1, fs1)) = (None, c', fs')"
      using "1.prems"(1) st f by (simp add: Let_def)
    have Ffs1: "shrunk F fs1"
    proof (cases "stat fs1 ?dir")
      case False
      with tail "1.prems"(3) show ?thesis by simp
    next
      case True
      with tail obtain files where "readDir fs1 ?dir = Inr files"
        and "processSubdirs fs1 c1 ?dir files = (None, c', fs')"
        by (auto split: sum.splits)
      from traversal_shrunk_opts(2)[OF this(2)] "1.prems"(3) show ?thesis
        by (blast intro: shrunk_trans)
    qed
    have own: "cleanupFileDependencies F c0 chartPath = (None, c0, F)"
      using cleanupFileDependencies_again[OF f "1.prems"(2) Ffs1 stF] .
    show ?thesis
    proof (cases "stat F ?dir")
      case False
      with stF own show ?thesis by (simp add: Let_def)
    next
      case stD: True
      then have stD1: "stat fs1 ?dir" using shrunk_stat[OF Ffs1] by blast
      with tail obtain files where files: "readDir fs1 ?dir = Inr files"
        and sub: "processSubdirs fs1 c1 ?dir files = (None, c', fs')"
        by (auto split: sum.splits)
      from readDir_shrunk_ok[OF Ffs1 stD files] obtain es where es: "readDir F ?dir = Inr es" by blast
      have nst: "\<not> \<not> stat fs ?mf" using st by simp
      have "processSubdirs F c0 ?dir es = (None, c0, F)"
      proof (rule processSubdirs_nothing)
        fix n assume "(n, True) \<in> set es"
        from readDir_shrunk[OF Ffs1 es files this] have "(n, True) \<in> set files" .
        from "1.IH"[OF refl nst f[symmetric] refl refl refl stD1 files sub o1 "1.prems"(3) this]
        show "processChart F c0 (?dir @ [n]) = (None, c0, F)" .
      qed
      with stF own stD es show ?thesis by (simp add: Let_def)
    qed
  qed
next
  case (2 fs c chartsDir)
  then show ?case by simp
next
  case (3 fs c chartsDir name entryIsDir rest)
  show ?case
  proof (cases entryIsDir)
    case False
    with "3.prems" have r: "processSubdirs fs c chartsDir rest = (None, c', fs')"
      and m: "(n, True) \<in> set rest" by auto
    from "3.IH"(3)[OF False r "3.prems"(2,3) m] show ?thesis .
  next
    case True
    obtain r1 c1 fs1 where s: "processChart fs c (chartsDir @ [name]) = (r1, c1, fs1)"
      by (cases "processChart fs c (chartsDir @ [name])") auto
    with "3.prems"(1) True have r1: "r1 = None"
      and rest: "processSubdirs fs1 c1 chartsDir rest = (None, c', fs')"
      by (auto split: option.splits)
    note s = s[unfolded r1]
    have o1: "\<not> cleanup_options.DryRun (cleaner.opts c1)"
      using traversal_shrunk_opts(1)[OF s] "3.prems"(2) by simp
    have Ffs1: "shrunk F fs1"
      using traversal_shrunk_opts(2)[OF rest] "3.prems"(3) by (blast intro: shrunk_trans)
    from "3.prems"(4) consider "n = name" | "(n, True) \<in> set rest" by auto
    then show ?thesis
    proof cases
      case 1
      from "3.IH"(1)[OF True s "3.prems"(2) Ffs1] 1 show ?thesis by simp
    next
      case 2
      from "3.IH"(2)[OF True s[symmetric] refl refl rest o1 "3.prems"(3) 2] show ?thesis .
    qed
  qed
qed

text \<open>
  C9. Cleanup is idempotent: after a successful run that was not a dry run, a second run
  from the same root chart path (dry or not) finds nothing to delete: it succeeds with
  an empty deletion set and leaves the filesystem as the first run left it.
\<close>

theorem cleanup_idempotent:
  assumes "cleanup_Run os fs = (None, c1, fs1)"
    and "\<not> cleanup_options.DryRun os"
    and "cleanup_options.ChartPath os' = cleanup_options.ChartPath os"
  shows "cleanup_Run os' fs1 = (None, NewCleaner os', fs1) \<and> deletedPaths (NewCleaner os') = []"
proof -
  from assms(1) have run: "processChart fs (NewCleaner os) (cleanup_options.ChartPath os) = (None, c1, fs1)"
    by (simp add: cleanup_Run_def Cleanup_def NewCleaner_def)
  have dry: "\<not> cleanup_options.DryRun (cleaner.opts (NewCleaner os))"
    using assms(2) by (simp add: NewCleaner_def)
  from traversal_again(1)[OF run dry shrunk_refl, of "NewCleaner os'"] assms(3)
  show ?thesis by (simp add: cleanup_Run_def Cleanup_def NewCleaner_def)
qed

theorem cleanup_idempotent_witness:
  "cleanup_Run (cleanupOpts [''R''] False) fs_local_dep
     = (None, \<lparr>cleaner.opts = cleanupOpts [''R''] False, deletedPaths = [[''R'', ''localdb'']]\<rparr>,
        fs_local_dep_cleaned)
   \<and> \<not> cleanup_options.DryRun (cleanupOpts [''R''] False)
   \<and> cleanup_Run (cleanupOpts [''R''] False) fs_local_dep_cleaned
       = (None, NewCleaner (cleanupOpts [''R''] False), fs_local_dep_cleaned)
   \<and> deletedPaths (NewCleaner (cleanupOpts [''R''] False)) = []"
proof -
  have h1: "cleanup_Run (cleanupOpts [''R''] False) fs_local_dep
     = (None, \<lparr>cleaner.opts = cleanupOpts [''R''] False, deletedPaths = [[''R'', ''localdb'']]\<rparr>,
        fs_local_dep_cleaned)"
    by code_simp
  have h2: "\<not> cleanup_options.DryRun (cleanupOpts [''R''] False)"
    by (simp add: cleanupOpts_def)
  from cleanup_idempotent[OF h1 h2 refl] h1 h2 show ?thesis by simp
qed

subsection \<open>What a run may remove\<close>

lemma cleaned_same: "(\<And>p e. r \<noteq> Some (FailedToRemoveDirectory p e)) \<Longrightarrow> cleaned fs c (r, c, fs)"
  by (simp add: cleaned_def)

lemma cleaned_trans:
  assumes "cleaned fs c (None, c1, fs1)" and "cleaned fs1 c1 res"
  shows "cleaned fs c res"
proof -
  obtain r c2 fs2 where res: "res = (r, c2, fs2)" by (cases res)
  from assms(1) obtain new1 where n1: "deletedPaths c1 = deletedPaths c @ new1"
    "\<forall>q \<in> set new1. baseOf (dirOf q) \<noteq> ''charts''"
    "\<forall>p. lookupNode fs1 p = lookupNode fs p \<or> (\<exists>q \<in> set new1. prefix q p)"
    by (auto simp: cleaned_def)
  from assms(2) res obtain new2 where n2: "deletedPaths c2 = deletedPaths c1 @ new2"
    "\<forall>q \<in> set new2. baseOf (dirOf q) \<noteq> ''charts''"
    "\<forall>p. lookupNode fs2 p = lookupNode fs1 p \<or> (\<exists>q \<in> set new2. prefix q p)"
    and err: "\<forall>p e. r = Some (FailedToRemoveDirectory p e) \<longrightarrow> baseOf (dirOf p) \<noteq> ''charts''"
    by (auto simp: cleaned_def)
  have a: "deletedPaths c2 = deletedPaths c @ (new1 @ new2)" using n1(1) n2(1) by simp
  have b: "\<forall>q \<in> set (new1 @ new2). baseOf (dirOf q) \<noteq> ''charts''" using n1(2) n2(2) by auto
  have c: "\<forall>p. lookupNode fs2 p = lookupNode fs p \<or> (\<exists>q \<in> set (new1 @ new2). prefix q p)"
  proof
    fix p
    from n1(3) n2(3) have "lookupNode fs1 p = lookupNode fs p \<or> (\<exists>q \<in> set new1. prefix q p)"
      and "lookupNode fs2 p = lookupNode fs1 p \<or> (\<exists>q \<in> set new2. prefix q p)" by blast+
    then show "lookupNode fs2 p = lookupNode fs p \<or> (\<exists>q \<in> set (new1 @ new2). prefix q p)"
      by auto
  qed
  from a b c err show ?thesis unfolding res cleaned_def by blast
qed

lemma cleanupDependency_cleaned: "cleaned fs c (cleanupDependency fs c cp dp)"
proof (cases "prefix ''file:'' (Repository dp) \<and> stat fs (resolveTarget cp (Repository dp))
              \<and> baseOf (dirOf (resolveTarget cp (Repository dp))) \<noteq> ''charts''")
  case False
  then have "cleanupDependency fs c cp dp = (None, c, fs)"
    by (auto simp: cleanupDependency_def Let_def)
  then show ?thesis by (simp add: cleaned_same)
next
  case True
  let ?t = "resolveTarget cp (Repository dp)"
  show ?thesis
  proof (cases "cleanup_options.DryRun (cleaner.opts c)")
    case dry: True
    with True have "cleanupDependency fs c cp dp = (None, c\<lparr>deletedPaths := deletedPaths c @ [?t]\<rparr>, fs)"
      by (simp add: cleanupDependency_def Let_def)
    with True show ?thesis by (simp add: cleaned_def)
  next
    case False
    show ?thesis
    proof (cases "removeAll_fs fs ?t")
      case (Inl e)
      with True False have "cleanupDependency fs c cp dp = (Some (FailedToRemoveDirectory ?t e), c, fs)"
        by (simp add: cleanupDependency_def Let_def)
      with True show ?thesis by (simp add: cleaned_def)
    next
      case (Inr fs')
      with True False have "cleanupDependency fs c cp dp = (None, c\<lparr>deletedPaths := deletedPaths c @ [?t]\<rparr>, fs')"
        by (simp add: cleanupDependency_def Let_def)
      moreover have "\<forall>p. lookupNode fs' p = lookupNode fs p \<or> prefix ?t p"
        using removeAll_fs_lookup[OF Inr] by simp
      ultimately show ?thesis using True by (simp add: cleaned_def)
    qed
  qed
qed

lemma cleanupDependencies_cleaned: "cleaned fs c (cleanupDependencies fs c cp deps)"
proof (induction deps arbitrary: fs c)
  case Nil
  show ?case by (simp add: cleaned_same)
next
  case (Cons dp deps)
  obtain r1 c1 fs1 where s: "cleanupDependency fs c cp dp = (r1, c1, fs1)"
    by (cases "cleanupDependency fs c cp dp") auto
  have a: "cleaned fs c (r1, c1, fs1)" using cleanupDependency_cleaned[of fs c cp dp] s by simp
  show ?case
  proof (cases r1)
    case None
    with s a Cons.IH[of fs1 c1] show ?thesis by (auto intro: cleaned_trans)
  next
    case (Some e)
    with s a show ?thesis by simp
  qed
qed

lemma cleanupFileDependencies_cleaned: "cleaned fs c (cleanupFileDependencies fs c cp)"
  by (auto simp: cleanupFileDependencies_def Let_def cleanupDependencies_cleaned cleaned_same
      split: option.splits node.splits content.splits)

lemma traversal_cleaned:
  "cleaned fs c (processChart fs c p)"
  "cleaned fs c (processSubdirs fs c dir es)"
proof (induction fs c p and fs c dir es rule: processChart_processSubdirs.induct)
  case (1 fs c chartPath)
  let ?mf = "joinPath chartPath [''Chart.yaml'']"
  let ?dir = "joinPath chartPath [''charts'']"
  show ?case
  proof (cases "stat fs ?mf")
    case False
    then show ?thesis by (simp add: cleaned_same)
  next
    case True
    obtain r1 c1 fs1 where f: "cleanupFileDependencies fs c chartPath = (r1, c1, fs1)"
      by (cases "cleanupFileDependencies fs c chartPath") auto
    have a: "cleaned fs c (r1, c1, fs1)" using cleanupFileDependencies_cleaned[of fs c chartPath] f by simp
    show ?thesis
    proof (cases r1)
      case (Some e)
      with True f a show ?thesis by simp
    next
      case None
      note f = f[unfolded None] and a = a[unfolded None]
      have nst: "\<not> \<not> stat fs ?mf" using True by simp
      show ?thesis
      proof (cases "stat fs1 ?dir")
        case False
        with True f a show ?thesis by simp
      next
        case st: True
        show ?thesis
        proof (cases "readDir fs1 ?dir")
          case (Inl e)
          have "cleaned fs1 c1 (Some (FailedToReadChartsDir e), c1, fs1)" by (simp add: cleaned_same)
          with a have "cleaned fs c (Some (FailedToReadChartsDir e), c1, fs1)" by (rule cleaned_trans)
          with True f st Inl show ?thesis by simp
        next
          case (Inr files)
          from "1.IH"[OF refl nst f[symmetric] refl refl refl st Inr]
          have "cleaned fs1 c1 (processSubdirs fs1 c1 ?dir files)" .
          with a have "cleaned fs c (processSubdirs fs1 c1 ?dir files)" by (rule cleaned_trans)
          with True f st Inr show ?thesis by simp
        qed
      qed
    qed
  qed
next
  case (2 fs c chartsDir)
  show ?case by (simp add: cleaned_same)
next
  case (3 fs c chartsDir name entryIsDir rest)
  show ?case
  proof (cases entryIsDir)
    case False
    with "3.IH"(3) show ?thesis by simp
  next
    case True
    obtain r1 c1 fs1 where s: "processChart fs c (chartsDir @ [name]) = (r1, c1, fs1)"
      by (cases "processChart fs c (chartsDir @ [name])") auto
    have a: "cleaned fs c (r1, c1, fs1)" using "3.IH"(1)[OF True] s by simp
    show ?thesis
    proof (cases r1)
      case (Some e)
      with True s a show ?thesis by simp
    next
      case None
      from "3.IH"(2)[OF True s[symmetric, unfolded None] refl refl]
      have "cleaned fs1 c1 (processSubdirs fs1 c1 chartsDir rest)" .
      with a[unfolded None] have "cleaned fs c (processSubdirs fs1 c1 chartsDir rest)" by (rule cleaned_trans)
      with True s None show ?thesis by simp
    qed
  qed
qed



subsection \<open>An error ends the whole cleanup\<close>

lemma processSubdirs_append:
  "processSubdirs fs c dir before = (None, c2, fs2) \<Longrightarrow>
   processSubdirs fs c dir (before @ rest) = processSubdirs fs2 c2 dir rest"
proof (induction before arbitrary: fs c)
  case Nil
  then show ?case by simp
next
  case (Cons entry before)
  obtain name isd where entry: "entry = (name, isd)" by (cases entry)
  show ?case
  proof (cases isd)
    case False
    with Cons entry show ?thesis by simp
  next
    case True
    obtain r c1 fs1 where sub: "processChart fs c (dir @ [name]) = (r, c1, fs1)"
      by (cases "processChart fs c (dir @ [name])") auto
    with Cons.prems entry True have r: "r = None"
      and rest: "processSubdirs fs1 c1 dir before = (None, c2, fs2)"
      by (auto split: option.splits)
    from Cons.IH[OF rest] sub r entry True show ?thesis by simp
  qed
qed

lemma reaches_error_propagates:
  "reaches s t \<Longrightarrow> fst (processChart (fst t) (fst (snd t)) (snd (snd t))) = Some e \<Longrightarrow>
   fst (processChart (fst s) (fst (snd s)) (snd (snd s))) = Some e"
proof (induction rule: reaches.induct)
  case (reaches_here fs c chartPath)
  then show ?case by simp
next
  case (reaches_sub fs chartPath c c1 fs1 chartsDir before name rest c2 fs2 t)
  from reaches_sub.IH reaches_sub.prems
  obtain c3 fs3 where sub: "processChart fs2 c2 (chartsDir @ [name]) = (Some e, c3, fs3)"
    by (cases "processChart fs2 c2 (chartsDir @ [name])") auto
  have "processSubdirs fs1 c1 chartsDir (before @ (name, True) # rest) = (Some e, c3, fs3)"
    using processSubdirs_append[OF reaches_sub.hyps(6)] sub by simp
  with reaches_sub.hyps(1-5) show ?case by (simp add: Let_def)
qed

lemma bad_manifest_cleanup:
  assumes "stat fs (joinPath q [''Chart.yaml''])"
    and "readChartYaml fs (joinPath q [''Chart.yaml'']) = Inl e0"
  shows "fst (processChart fs c q) =
           Some (if e0 = YamlErr then FailedToParseChartYaml YamlErr
                 else FailedToReadChartYaml (OpenErr (joinPath q [''Chart.yaml''])))"
  using assms
  by (auto simp: Let_def cleanupFileDependencies_def readChartYaml_def stat_def
      split: option.splits node.splits content.splits)

text \<open>
  C7, as amended. When the cleanup traversal reaches a chart whose manifest is present
  but cannot be read or parsed, the run aborts with an error. For a manifest that cannot
  be read, the error wraps the one of \<^verbatim>\<open>ioutil.ReadFile\<close>, which names the manifest's
  path; for a manifest that does not parse, it wraps the parser's error and names no path.
\<close>

theorem cleanup_bad_manifest_aborts:
  assumes "reaches (fs, NewCleaner os, cleanup_options.ChartPath os) (fs', c', q)"
    and "stat fs' (joinPath q [''Chart.yaml''])"
    and "readChartYaml fs' (joinPath q [''Chart.yaml'']) = Inl e0"
  shows "\<exists>e. fst (cleanup_Run os fs) = Some e \<and>
           (if e0 = YamlErr then e = FailedToParseChartYaml YamlErr \<and> errorPaths e = []
            else e = FailedToReadChartYaml (OpenErr (joinPath q [''Chart.yaml'']))
                 \<and> errorPaths e = [joinPath q [''Chart.yaml'']])"
proof -
  from reaches_error_propagates[OF assms(1)] bad_manifest_cleanup[OF assms(2,3), of c']
  have "fst (processChart fs (NewCleaner os) (cleanup_options.ChartPath os)) =
      Some (if e0 = YamlErr then FailedToParseChartYaml YamlErr
            else FailedToReadChartYaml (OpenErr (joinPath q [''Chart.yaml''])))"
    by simp
  then show ?thesis by (simp add: cleanup_Run_def Cleanup_def NewCleaner_def)
qed

theorem cleanup_bad_manifest_aborts_witness:
  "reaches (fs_nested_unreadable, NewCleaner (cleanupOpts [''R''] False),
            cleanup_options.ChartPath (cleanupOpts [''R''] False))
           (fs_nested_unreadable, NewCleaner (cleanupOpts [''R''] False), [''R'', ''charts'', ''a''])
   \<and> stat fs_nested_unreadable (joinPath [''R'', ''charts'', ''a''] [''Chart.yaml''])
   \<and> readChartYaml fs_nested_unreadable (joinPath [''R'', ''charts'', ''a''] [''Chart.yaml''])
       = Inl (OpenErr [''R'', ''charts'', ''a'', ''Chart.yaml''])
   \<and> fst (cleanup_Run (cleanupOpts [''R''] False) fs_nested_unreadable)
       = Some (FailedToReadChartYaml (OpenErr [''R'', ''charts'', ''a'', ''Chart.yaml'']))
   \<and> errorPaths (FailedToReadChartYaml (OpenErr [''R'', ''charts'', ''a'', ''Chart.yaml'']))
       = [[''R'', ''charts'', ''a'', ''Chart.yaml'']]"
proof -
  let ?fs = fs_nested_unreadable
  let ?c = "NewCleaner (cleanupOpts [''R''] False)"
  have root: "cleanup_options.ChartPath (cleanupOpts [''R''] False) = [''R'']"
    by (simp add: cleanupOpts_def)
  have m: "stat ?fs (joinPath [''R''] [''Chart.yaml''])"
    by (simp add: joinPath_ChartYaml stat_def lookupNode_def fs_nested_unreadable_def)
  have own: "cleanupFileDependencies ?fs ?c [''R''] = (None, ?c, ?fs)"
    by (simp add: cleanupFileDependencies_def cleanupDependency_def joinPath_ChartYaml lookupNode_def
        fs_nested_unreadable_def mkdep_def)
  have s: "stat ?fs [''R'', ''charts'']"
    by (simp add: stat_def lookupNode_def fs_nested_unreadable_def)
  have r: "readDir ?fs [''R'', ''charts''] = Inr ([] @ (''a'', True) # [])"
    by (simp add: readDir_def isDir_def lookupNode_def childNames_def validName_def
        fs_nested_unreadable_def)
  have v: "reaches (?fs, ?c, [''R'']) (?fs, ?c, [''R'', ''charts'', ''a''])"
  proof (rule reaches_sub[where chartsDir = "[''R'', ''charts'']" and before = "[]"
        and name = "''a''" and rest = "[]" and ?c2.0 = ?c and ?fs2.0 = ?fs, OF m own])
    show "[''R'', ''charts''] = joinPath [''R''] [''charts'']" by (simp add: joinPath_charts)
    show "stat ?fs [''R'', ''charts'']" by (rule s)
    show "readDir ?fs [''R'', ''charts''] = Inr ([] @ [(''a'', True)])" using r by simp
    show "processSubdirs ?fs ?c [''R'', ''charts''] [] = (None, ?c, ?fs)" by simp
    show "reaches (?fs, ?c, [''R'', ''charts''] @ [''a'']) (?fs, ?c, [''R'', ''charts'', ''a''])"
      using reaches_here[of ?fs ?c "[''R'', ''charts'', ''a'']"] by simp
  qed
  have st: "stat ?fs (joinPath [''R'', ''charts'', ''a''] [''Chart.yaml''])"
    by (simp add: joinPath_ChartYaml stat_def lookupNode_def fs_nested_unreadable_def)
  have rd: "readChartYaml ?fs (joinPath [''R'', ''charts'', ''a''] [''Chart.yaml''])
       = Inl (OpenErr [''R'', ''charts'', ''a'', ''Chart.yaml''])"
    by (simp add: joinPath_ChartYaml readChartYaml_def lookupNode_def fs_nested_unreadable_def)
  have v': "reaches (?fs, ?c, cleanup_options.ChartPath (cleanupOpts [''R''] False))
                    (?fs, ?c, [''R'', ''charts'', ''a''])"
    unfolding root by (rule v)
  from cleanup_bad_manifest_aborts[OF v' st rd] v' st rd
  show ?thesis by (simp add: joinPath_ChartYaml)
qed

text \<open>
  C7 as stated fails for a manifest that does not parse: on \<^verbatim>\<open>fs_nested_malformed\<close>
  the run aborts with the parser's error wrapped in the text
  \<^verbatim>\<open>failed to parse Chart.yaml\<close>, which names neither the chart nor its manifest.
\<close>

theorem parse_error_names_no_path:
  "fst (cleanup_Run (cleanupOpts [''R''] False) fs_nested_malformed) = Some (FailedToParseChartYaml YamlErr)
   \<and> errorPaths (FailedToParseChartYaml YamlErr) = []"
  by code_simp

section \<open>Dry runs\<close>

subsection \<open>The traversal of the deduplication engine does not read its options\<close>

lemma registerDependency_opts_update:
  "registerDependency cp (d\<lparr>deduplicator.opts := os\<rparr>) dp = (registerDependency cp d dp)\<lparr>deduplicator.opts := os\<rparr>"
  by (simp add: registerDependency_def Let_def split: option.splits prod.splits)

lemma registerAll_opts_update:
  "registerAll cp (d\<lparr>deduplicator.opts := os\<rparr>) deps = (registerAll cp d deps)\<lparr>deduplicator.opts := os\<rparr>"
  unfolding registerAll_def
  by (induction deps arbitrary: d) (simp_all add: registerDependency_opts_update)

lemma processManifest_opts_update:
  "processManifest fs (d\<lparr>deduplicator.opts := os\<rparr>) cp =
     (fst (processManifest fs d cp), (snd (processManifest fs d cp))\<lparr>deduplicator.opts := os\<rparr>)"
  by (simp add: processManifest_def Let_def registerAll_opts_update split: sum.splits)

lemma traversal_opts_update:
  "processDependencies fs (d\<lparr>deduplicator.opts := os\<rparr>) cp =
     (fst (processDependencies fs d cp), (snd (processDependencies fs d cp))\<lparr>deduplicator.opts := os\<rparr>)"
  "processSubcharts fs (d\<lparr>deduplicator.opts := os\<rparr>) dir es =
     (fst (processSubcharts fs d dir es), (snd (processSubcharts fs d dir es))\<lparr>deduplicator.opts := os\<rparr>)"
proof (induction fs d cp and fs d dir es rule: processDependencies_processSubcharts.induct)
  case (1 fs d chartPath)
  obtain r1 d1 where m: "processManifest fs d chartPath = (r1, d1)"
    by (cases "processManifest fs d chartPath")
  then have m': "processManifest fs (d\<lparr>deduplicator.opts := os\<rparr>) chartPath = (r1, d1\<lparr>deduplicator.opts := os\<rparr>)"
    by (simp add: processManifest_opts_update)
  show ?case
  proof (cases "r1 = None \<and> stat fs (joinPath chartPath [''charts''])
                \<and> (\<exists>es. readDir fs (joinPath chartPath [''charts'']) = Inr es)")
    case False
    with m m' show ?thesis by (auto simp: Let_def split: option.splits sum.splits)
  next
    case True
    then obtain es where es: "readDir fs (joinPath chartPath [''charts'']) = Inr es" by blast
    from True have r1: "r1 = None" and st: "stat fs (joinPath chartPath [''charts''])" by auto
    from "1.IH"[OF m[symmetric, unfolded r1] refl refl st es] m m' r1 st es
    show ?thesis by (simp add: Let_def)
  qed
next
  case (2 fs d chartsDir)
  show ?case by simp
next
  case (3 fs d chartsDir name entryIsDir rest)
  show ?case
  proof (cases entryIsDir)
    case False
    with "3.IH"(4) show ?thesis by simp
  next
    case True
    show ?thesis
    proof (cases "chartsDir @ [name] \<in> set (deleteDependencies d)")
      case t: True
      with True "3.IH"(1) show ?thesis by (simp add: Let_def)
    next
      case False
      obtain r1 d1 where s: "processDependencies fs d (chartsDir @ [name]) = (r1, d1)"
        by (cases "processDependencies fs d (chartsDir @ [name])")
      with "3.IH"(2)[OF True refl False]
      have s': "processDependencies fs (d\<lparr>deduplicator.opts := os\<rparr>) (chartsDir @ [name])
                  = (r1, d1\<lparr>deduplicator.opts := os\<rparr>)" by simp
      show ?thesis
      proof (cases r1)
        case (Some e)
        with True False s s' show ?thesis by (simp add: Let_def)
      next
        case None
        from "3.IH"(3)[OF True refl False s[symmetric, unfolded None] refl] True False s s' None
        show ?thesis by (simp add: Let_def)
      qed
    qed
  qed
qed

lemma traversal_opts:
  "deduplicator.opts (snd (processDependencies fs d cp)) = deduplicator.opts d"
proof -
  let ?X = "processDependencies fs d cp"
  have "?X = (fst ?X, (snd ?X)\<lparr>deduplicator.opts := deduplicator.opts d\<rparr>)"
    using traversal_opts_update(1)[where fs = fs and d = d and os = "deduplicator.opts d" and cp = cp]
    by simp
  then have "snd ?X = (snd ?X)\<lparr>deduplicator.opts := deduplicator.opts d\<rparr>"
    by (metis snd_conv)
  from arg_cong[OF this, of deduplicator.opts] show ?thesis by simp
qed

subsection \<open>The deferred removals\<close>

lemma removeEach_shrunk: "removeEach fs ps = (r, fs') \<Longrightarrow> shrunk fs' fs"
proof (induction ps arbitrary: fs)
  case Nil
  then show ?case by (simp add: shrunk_refl)
next
  case (Cons p ps)
  show ?case
  proof (cases "removeAll_fs fs p")
    case (Inl e)
    with Cons.prems show ?thesis by (simp add: shrunk_refl)
  next
    case (Inr fs1)
    with Cons.prems have "removeEach fs1 ps = (r, fs')" by simp
    from Cons.IH[OF this] removeAll_fs_shrunk[OF Inr] show ?thesis by (rule shrunk_trans)
  qed
qed

lemma removeEach_gone: "removeEach fs ps = (None, fs') \<Longrightarrow> p \<in> set ps \<Longrightarrow> \<not> stat fs' p"
proof (induction ps arbitrary: fs)
  case Nil
  then show ?case by simp
next
  case (Cons q ps)
  from Cons.prems(1) obtain fs1 where q: "removeAll_fs fs q = Inr fs1"
    and rest: "removeEach fs1 ps = (None, fs')"
    by (auto split: sum.splits)
  show ?case
  proof (cases "p \<in> set ps")
    case True
    from Cons.IH[OF rest True] show ?thesis .
  next
    case False
    with Cons.prems(2) have "p = q" by simp
    with removeAll_fs_gone[OF q] have "\<not> stat fs1 p" by simp
    with shrunk_stat[OF removeEach_shrunk[OF rest]] show ?thesis by blast
  qed
qed

subsection \<open>A dry cleanup run removes nothing\<close>

lemma cleanupDependencies_dry:
  "cleanup_options.DryRun (cleaner.opts c) \<Longrightarrow> snd (snd (cleanupDependencies fs c cp deps)) = fs"
proof (induction deps arbitrary: c)
  case Nil
  show ?case by simp
next
  case (Cons dp deps)
  obtain r1 c1 fs1 where s: "cleanupDependency fs c cp dp = (r1, c1, fs1)"
    by (cases "cleanupDependency fs c cp dp") auto
  with Cons.prems have fs1: "fs1 = fs"
    by (auto simp: cleanupDependency_def Let_def split: if_splits)
  have "cleanup_options.DryRun (cleaner.opts c1)"
    using cleanupDependency_opts[OF s] Cons.prems by simp
  from Cons.IH[OF this] s fs1 show ?case by (simp split: option.splits)
qed

lemma cleanupFileDependencies_dry:
  "cleanup_options.DryRun (cleaner.opts c) \<Longrightarrow> snd (snd (cleanupFileDependencies fs c cp)) = fs"
  by (simp add: cleanupFileDependencies_def Let_def cleanupDependencies_dry
      split: option.splits node.splits content.splits)

lemma traversal_dry:
  "cleanup_options.DryRun (cleaner.opts c) \<Longrightarrow> snd (snd (processChart fs c p)) = fs"
  "cleanup_options.DryRun (cleaner.opts c) \<Longrightarrow> snd (snd (processSubdirs fs c dir es)) = fs"
proof (induction fs c p and fs c dir es rule: processChart_processSubdirs.induct)
  case (1 fs c chartPath)
  let ?mf = "joinPath chartPath [''Chart.yaml'']"
  let ?dir = "joinPath chartPath [''charts'']"
  show ?case
  proof (cases "stat fs ?mf")
    case False
    then show ?thesis by simp
  next
    case True
    obtain r1 c1 fs1 where f: "cleanupFileDependencies fs c chartPath = (r1, c1, fs1)"
      by (cases "cleanupFileDependencies fs c chartPath") auto
    have fs1: "fs1 = fs" using cleanupFileDependencies_dry[OF "1.prems", of fs chartPath] f by simp
    have o1: "cleanup_options.DryRun (cleaner.opts c1)"
      using cleanupFileDependencies_shrunk_opts[OF f] "1.prems" by simp
    have nst: "\<not> \<not> stat fs ?mf" using True by simp
    show ?thesis
    proof (cases "r1 = None \<and> stat fs1 ?dir \<and> (\<exists>files. readDir fs1 ?dir = Inr files)")
      case False
      with True f fs1 show ?thesis by (auto simp: Let_def split: option.splits sum.splits)
    next
      case t: True
      then obtain files where files: "readDir fs1 ?dir = Inr files" by blast
      from t have r1: "r1 = None" and st: "stat fs1 ?dir" by auto
      from "1.IH"[OF refl nst f[symmetric, unfolded r1] refl refl refl st files o1] True f r1 st files fs1
      show ?thesis by (simp add: Let_def)
    qed
  qed
next
  case (2 fs c chartsDir)
  show ?case by simp
next
  case (3 fs c chartsDir name entryIsDir rest)
  show ?case
  proof (cases entryIsDir)
    case False
    with "3.IH"(3)[OF False "3.prems"] show ?thesis by simp
  next
    case True
    obtain r1 c1 fs1 where s: "processChart fs c (chartsDir @ [name]) = (r1, c1, fs1)"
      by (cases "processChart fs c (chartsDir @ [name])") auto
    have fs1: "fs1 = fs" using "3.IH"(1)[OF True "3.prems"] s by simp
    have o1: "cleanup_options.DryRun (cleaner.opts c1)"
      using traversal_shrunk_opts(1)[OF s] "3.prems" by simp
    show ?thesis
    proof (cases r1)
      case (Some e)
      with True s fs1 show ?thesis by simp
    next
      case None
      from "3.IH"(2)[OF True s[symmetric, unfolded None] refl refl o1] True s None fs1
      show ?thesis by simp
    qed
  qed
qed

subsection \<open>A dry cleanup run reports what a normal run removes\<close>

lemma covers_extra: "deletedPaths cd1 = deletedPaths cd @ newd \<Longrightarrow> covers c c cd cd1"
  by (simp add: covers_def)

lemma covers_trans:
  assumes "covers c c1 cd cd1" and "covers c1 c2 cd1 cd2"
  shows "covers c c2 cd cd2"
proof -
  from assms(1) obtain n1 m1 where a: "deletedPaths c1 = deletedPaths c @ n1"
    "deletedPaths cd1 = deletedPaths cd @ m1" "subseq n1 m1" by (auto simp: covers_def)
  from assms(2) obtain n2 m2 where b: "deletedPaths c2 = deletedPaths c1 @ n2"
    "deletedPaths cd2 = deletedPaths cd1 @ m2" "subseq n2 m2" by (auto simp: covers_def)
  have "subseq (n1 @ n2) (m1 @ m2)" using a(3) b(3) by (rule list_emb_append_mono)
  moreover have "deletedPaths c2 = deletedPaths c @ (n1 @ n2)" using a(1) b(1) by simp
  moreover have "deletedPaths cd2 = deletedPaths cd @ (m1 @ m2)" using a(2) b(2) by simp
  ultimately show ?thesis unfolding covers_def by blast
qed

lemma cleaned_grows: "cleaned fs c (r, c', fs') \<Longrightarrow> \<exists>new. deletedPaths c' = deletedPaths c @ new"
  by (auto simp: cleaned_def)

lemma cleanupDependency_covers:
  assumes "cleanupDependency fs c cp dp = (None, c1, fs1)"
    and "\<not> cleanup_options.DryRun (cleaner.opts c)"
    and "shrunk fs G"
    and "cleanup_options.DryRun (cleaner.opts cd)"
  shows "\<exists>cd1. cleanupDependency G cd cp dp = (None, cd1, G) \<and> covers c c1 cd cd1"
proof -
  let ?t = "resolveTarget cp (Repository dp)"
  show ?thesis
  proof (cases "prefix ''file:'' (Repository dp) \<and> stat fs ?t \<and> baseOf (dirOf ?t) \<noteq> ''charts''")
    case True
    with assms(1,2) have c1: "c1 = c\<lparr>deletedPaths := deletedPaths c @ [?t]\<rparr>"
      by (auto simp: cleanupDependency_def Let_def split: sum.splits)
    from True shrunk_stat[OF assms(3)] have "stat G ?t" by blast
    with True assms(4)
    have "cleanupDependency G cd cp dp = (None, cd\<lparr>deletedPaths := deletedPaths cd @ [?t]\<rparr>, G)"
      by (simp add: cleanupDependency_def Let_def)
    moreover have "covers c c1 cd (cd\<lparr>deletedPaths := deletedPaths cd @ [?t]\<rparr>)"
      unfolding c1 covers_def by auto
    ultimately show ?thesis by blast
  next
    case False
    with assms(1) have c1: "c1 = c" by (auto simp: cleanupDependency_def Let_def split: if_splits)
    obtain r cd1 G1 where d: "cleanupDependency G cd cp dp = (r, cd1, G1)"
      by (cases "cleanupDependency G cd cp dp") auto
    with assms(4) have "r = None" "G1 = G"
      by (auto simp: cleanupDependency_def Let_def split: if_splits)
    moreover from cleaned_grows[of G cd r cd1 G1] cleanupDependency_cleaned[of G cd cp dp] d
    obtain newd where "deletedPaths cd1 = deletedPaths cd @ newd" by auto
    then have "covers c c1 cd cd1" unfolding c1 by (rule covers_extra)
    ultimately show ?thesis using d by simp
  qed
qed

lemma cleanupDependencies_covers:
  "cleanupDependencies fs c cp deps = (None, c1, fs1) \<Longrightarrow>
   \<not> cleanup_options.DryRun (cleaner.opts c) \<Longrightarrow> shrunk fs G \<Longrightarrow>
   cleanup_options.DryRun (cleaner.opts cd) \<Longrightarrow>
   \<exists>cd1. cleanupDependencies G cd cp deps = (None, cd1, G) \<and> covers c c1 cd cd1"
proof (induction deps arbitrary: fs c cd)
  case Nil
  then show ?case by (auto simp: covers_def)
next
  case (Cons dp deps)
  obtain r2 c2 fs2 where s: "cleanupDependency fs c cp dp = (r2, c2, fs2)"
    by (cases "cleanupDependency fs c cp dp") auto
  with Cons.prems(1) have r2: "r2 = None" and rest: "cleanupDependencies fs2 c2 cp deps = (None, c1, fs1)"
    by (auto split: option.splits)
  note s = s[unfolded r2]
  from cleanupDependency_covers[OF s Cons.prems(2,3,4)]
  obtain cd2 where d: "cleanupDependency G cd cp dp = (None, cd2, G)" and cov: "covers c c2 cd cd2"
    by blast
  have o2: "\<not> cleanup_options.DryRun (cleaner.opts c2)"
    using cleanupDependency_opts[OF s] Cons.prems(2) by simp
  have od2: "cleanup_options.DryRun (cleaner.opts cd2)"
    using cleanupDependency_opts[OF d] Cons.prems(4) by simp
  have sh: "shrunk fs2 G"
    using cleanupDependency_shrunk[OF s] Cons.prems(3) by (rule shrunk_trans)
  from Cons.IH[OF rest o2 sh od2]
  obtain cd1 where "cleanupDependencies G cd2 cp deps = (None, cd1, G)" and "covers c2 c1 cd2 cd1"
    by blast
  with d cov show ?case by (auto intro: covers_trans)
qed

lemma cleanupFileDependencies_covers:
  assumes "cleanupFileDependencies fs c cp = (None, c1, fs1)"
    and "\<not> cleanup_options.DryRun (cleaner.opts c)"
    and "shrunk fs G"
    and "cleanup_options.DryRun (cleaner.opts cd)"
    and "stat fs (joinPath cp [''Chart.yaml''])"
  shows "\<exists>cd1. cleanupFileDependencies G cd cp = (None, cd1, G) \<and> covers c c1 cd cd1"
proof -
  from assms(1) obtain deps where
    m: "lookupNode fs (joinPath cp [''Chart.yaml'']) = Some (File (Manifest deps))"
    and run: "cleanupDependencies fs c cp deps = (None, c1, fs1)"
    by (auto simp: cleanupFileDependencies_def Let_def split: option.splits node.splits content.splits)
  from shrunk_lookup[OF assms(3,5)] m
  have "lookupNode G (joinPath cp [''Chart.yaml'']) = Some (File (Manifest deps))" by simp
  with cleanupDependencies_covers[OF run assms(2,3,4)] show ?thesis
    by (simp add: cleanupFileDependencies_def Let_def)
qed

lemma sorted_distinct_subseq:
  assumes "sorted xs" "distinct xs" "sorted ys" "distinct ys" "set xs \<subseteq> set ys"
  shows "subseq xs (ys :: 'a::linorder list)"
proof -
  have "filter (\<lambda>y. y \<in> set xs) ys = xs"
  proof (rule sorted_distinct_set_unique)
    show "sorted (filter (\<lambda>y. y \<in> set xs) ys)" using assms(3) by (rule sorted_wrt_filter)
    show "distinct (filter (\<lambda>y. y \<in> set xs) ys)" using assms(4) by simp
    show "sorted xs" "distinct xs" by fact+
    show "set (filter (\<lambda>y. y \<in> set xs) ys) = set xs" using assms(5) by auto
  qed
  then show ?thesis by (metis subseq_filter_left)
qed

lemma readDir_subseq:
  assumes "shrunk F G" and "readDir F d = Inr es1" and "readDir G d = Inr es2"
  shows "subseq es1 es2"
proof -
  let ?f = "\<lambda>n. (n, isDir G (d @ [n]))"
  from assms(2) have es1: "es1 = map (\<lambda>n. (n, isDir F (d @ [n]))) (childNames F d)"
    by (auto simp: readDir_def split: if_splits)
  from assms(3) have es2: "es2 = map ?f (childNames G d)"
    by (auto simp: readDir_def split: if_splits)
  have same: "\<And>n. n \<in> set (childNames F d) \<Longrightarrow> isDir F (d @ [n]) = isDir G (d @ [n])"
    using shrunk_lookup[OF assms(1)] by (simp add: childNames_iff isDir_def)
  then have es1': "es1 = map ?f (childNames F d)" unfolding es1 by simp
  have sub: "set (childNames F d) \<subseteq> set (childNames G d)"
    using shrunk_stat[OF assms(1)] by (auto simp: childNames_iff)
  have sd: "\<And>X. sorted (childNames X d) \<and> distinct (childNames X d)"
    by (simp add: childNames_def)
  have "subseq (childNames F d) (childNames G d)"
    using sd[of F] sd[of G] sub by (blast intro: sorted_distinct_subseq)
  then show ?thesis unfolding es1' es2 by (rule subseq_map)
qed

lemma processSubdirs_split:
  "processSubdirs fs c dir (pre @ rest) = (None, c2, fs2) \<Longrightarrow>
   \<exists>c1 fs1. processSubdirs fs c dir pre = (None, c1, fs1) \<and> processSubdirs fs1 c1 dir rest = (None, c2, fs2)"
proof (induction pre arbitrary: fs c)
  case Nil
  then show ?case by simp
next
  case (Cons entry pre)
  obtain name isd where entry: "entry = (name, isd)" by (cases entry)
  show ?case
  proof (cases isd)
    case False
    with Cons entry show ?thesis by simp
  next
    case True
    obtain r c1 fs1 where sub: "processChart fs c (dir @ [name]) = (r, c1, fs1)"
      by (cases "processChart fs c (dir @ [name])") auto
    with Cons.prems entry True have r: "r = None"
      and rest: "processSubdirs fs1 c1 dir (pre @ rest) = (None, c2, fs2)"
      by (auto split: option.splits)
    from Cons.IH[OF rest] sub r entry True show ?thesis by simp
  qed
qed

lemma traversal_grows:
  "\<exists>new. deletedPaths (fst (snd (processChart fs c p))) = deletedPaths c @ new"
  "\<exists>new. deletedPaths (fst (snd (processSubdirs fs c dir es))) = deletedPaths c @ new"
proof -
  obtain r c' fs' where a: "processChart fs c p = (r, c', fs')"
    by (cases "processChart fs c p") auto
  with traversal_cleaned(1)[of fs c p] cleaned_grows[of fs c r c' fs']
  show "\<exists>new. deletedPaths (fst (snd (processChart fs c p))) = deletedPaths c @ new" by simp
  obtain r c' fs' where b: "processSubdirs fs c dir es = (r, c', fs')"
    by (cases "processSubdirs fs c dir es") auto
  with traversal_cleaned(2)[of fs c dir es] cleaned_grows[of fs c r c' fs']
  show "\<exists>new. deletedPaths (fst (snd (processSubdirs fs c dir es))) = deletedPaths c @ new" by simp
qed

lemma traversal_covers:
  "processChart fs c p = (None, c1, fs1) \<Longrightarrow> \<not> cleanup_options.DryRun (cleaner.opts c) \<Longrightarrow>
   shrunk fs G \<Longrightarrow> cleanup_options.DryRun (cleaner.opts cd) \<Longrightarrow>
   processChart G cd p = (None, cd1, G1) \<Longrightarrow> covers c c1 cd cd1"
  "processSubdirs fs c dir es = (None, c1, fs1) \<Longrightarrow> \<not> cleanup_options.DryRun (cleaner.opts c) \<Longrightarrow>
   shrunk fs G \<Longrightarrow> cleanup_options.DryRun (cleaner.opts cd) \<Longrightarrow> subseq es es2 \<Longrightarrow>
   processSubdirs G cd dir es2 = (None, cd1, G1) \<Longrightarrow> covers c c1 cd cd1"
proof (induction fs c p and fs c dir es arbitrary: c1 fs1 cd cd1 G1 and c1 fs1 cd cd1 G1 es2
    rule: processChart_processSubdirs.induct)
  case (1 fs c chartPath)
  let ?mf = "joinPath chartPath [''Chart.yaml'']"
  let ?dir = "joinPath chartPath [''charts'']"
  show ?case
  proof (cases "stat fs ?mf")
    case False
    with "1.prems"(1) have "c1 = c" by simp
    moreover from traversal_grows(1)[of G cd chartPath] "1.prems"(5)
    obtain newd where "deletedPaths cd1 = deletedPaths cd @ newd" by auto
    ultimately show ?thesis by (simp add: covers_extra)
  next
    case st: True
    have nst: "\<not> \<not> stat fs ?mf" using st by simp
    have stG: "stat G ?mf" using shrunk_stat[OF "1.prems"(3) st] .
    obtain r2 c2 fs2 where f: "cleanupFileDependencies fs c chartPath = (r2, c2, fs2)"
      by (cases "cleanupFileDependencies fs c chartPath") auto
    with "1.prems"(1) st have r2: "r2 = None" by (auto simp: Let_def split: option.splits)
    note f = f[unfolded r2]
    from cleanupFileDependencies_covers[OF f "1.prems"(2,3,4) st]
    obtain cd2 where fd: "cleanupFileDependencies G cd chartPath = (None, cd2, G)"
      and cov: "covers c c2 cd cd2" by blast
    have o2: "\<not> cleanup_options.DryRun (cleaner.opts c2)"
      using cleanupFileDependencies_shrunk_opts[OF f] "1.prems"(2) by simp
    have od2: "cleanup_options.DryRun (cleaner.opts cd2)"
      using cleanupFileDependencies_shrunk_opts[OF fd] "1.prems"(4) by simp
    have sh2: "shrunk fs2 G"
      using cleanupFileDependencies_shrunk_opts[OF f] "1.prems"(3) by (blast intro: shrunk_trans)
    have tail: "(if stat fs2 ?dir then
                   (case readDir fs2 ?dir of Inl e \<Rightarrow> (Some (FailedToReadChartsDir e), c2, fs2)
                    | Inr files \<Rightarrow> processSubdirs fs2 c2 ?dir files)
                 else (None, c2, fs2)) = (None, c1, fs1)"
      using "1.prems"(1) st f by (simp add: Let_def)
    have taild: "(if stat G ?dir then
                   (case readDir G ?dir of Inl e \<Rightarrow> (Some (FailedToReadChartsDir e), cd2, G)
                    | Inr files \<Rightarrow> processSubdirs G cd2 ?dir files)
                 else (None, cd2, G)) = (None, cd1, G1)"
      using "1.prems"(5) stG fd by (simp add: Let_def)
    have rest: "covers c2 c1 cd2 cd1"
    proof (cases "stat fs2 ?dir")
      case False
      with tail have "c1 = c2" by simp
      moreover have "\<exists>newd. deletedPaths cd1 = deletedPaths cd2 @ newd"
      proof (cases "stat G ?dir")
        case False
        with taild show ?thesis by simp
      next
        case True
        with taild obtain files where "processSubdirs G cd2 ?dir files = (None, cd1, G1)"
          by (auto split: sum.splits)
        with traversal_grows(2)[of G cd2 ?dir files] show ?thesis by simp
      qed
      ultimately show ?thesis by (auto simp: covers_extra)
    next
      case True
      with tail obtain files where files: "readDir fs2 ?dir = Inr files"
        and sub: "processSubdirs fs2 c2 ?dir files = (None, c1, fs1)"
        by (auto split: sum.splits)
      from shrunk_stat[OF sh2 True] have stGd: "stat G ?dir" .
      with taild obtain filesd where filesd: "readDir G ?dir = Inr filesd"
        and subd: "processSubdirs G cd2 ?dir filesd = (None, cd1, G1)"
        by (auto split: sum.splits)
      from readDir_subseq[OF sh2 files filesd] have emb: "subseq files filesd" .
      from "1.IH"[OF refl nst f[symmetric] refl refl refl True files sub o2 sh2 od2 emb subd]
      show ?thesis .
    qed
    from cov rest show ?thesis by (rule covers_trans)
  qed
next
  case (2 fs c chartsDir)
  from "2.prems"(1) have "c1 = c" by simp
  moreover from traversal_grows(2)[of G cd chartsDir es2] "2.prems"(6)
  obtain newd where "deletedPaths cd1 = deletedPaths cd @ newd" by auto
  ultimately show ?case by (simp add: covers_extra)
next
  case (3 fs c chartsDir name entryIsDir rest)
  from list_emb_ConsD[OF "3.prems"(5)] obtain pre post where
    es2: "es2 = pre @ (name, entryIsDir) # post" and emb: "subseq rest post" by auto
  from processSubdirs_split[OF "3.prems"(6)[unfolded es2]] obtain cdm Gm where
    pre: "processSubdirs G cd chartsDir pre = (None, cdm, Gm)"
    and tl: "processSubdirs Gm cdm chartsDir ((name, entryIsDir) # post) = (None, cd1, G1)" by blast
  have Gm: "Gm = G" using traversal_dry(2)[OF "3.prems"(4), of G chartsDir pre] pre by simp
  have odm: "cleanup_options.DryRun (cleaner.opts cdm)"
    using traversal_shrunk_opts(2)[OF pre] "3.prems"(4) by simp
  from traversal_grows(2)[of G cd chartsDir pre] pre
  obtain newd where "deletedPaths cdm = deletedPaths cd @ newd" by auto
  then have cov0: "covers c c cd cdm" by (rule covers_extra)
  note tl = tl[unfolded Gm]
  show ?case
  proof (cases entryIsDir)
    case False
    with "3.prems"(1) have r: "processSubdirs fs c chartsDir rest = (None, c1, fs1)" by simp
    from tl False have rd: "processSubdirs G cdm chartsDir post = (None, cd1, G1)" by simp
    from "3.IH"(3)[OF False r "3.prems"(2,3) odm emb rd] have "covers c c1 cdm cd1" .
    with cov0 show ?thesis by (rule covers_trans)
  next
    case True
    obtain r2 c2 fs2 where s: "processChart fs c (chartsDir @ [name]) = (r2, c2, fs2)"
      by (cases "processChart fs c (chartsDir @ [name])") auto
    with "3.prems"(1) True have r2: "r2 = None"
      and r: "processSubdirs fs2 c2 chartsDir rest = (None, c1, fs1)"
      by (auto split: option.splits)
    note s = s[unfolded r2]
    obtain rd2 cd2 G2 where sd: "processChart G cdm (chartsDir @ [name]) = (rd2, cd2, G2)"
      by (cases "processChart G cdm (chartsDir @ [name])") auto
    with tl True have rd2: "rd2 = None"
      and rd: "processSubdirs G2 cd2 chartsDir post = (None, cd1, G1)"
      by (auto split: option.splits)
    note sd = sd[unfolded rd2]
    have G2: "G2 = G" using traversal_dry(1)[OF odm, of G "chartsDir @ [name]"] sd by simp
    have od2: "cleanup_options.DryRun (cleaner.opts cd2)"
      using traversal_shrunk_opts(1)[OF sd] odm by simp
    have o2: "\<not> cleanup_options.DryRun (cleaner.opts c2)"
      using traversal_shrunk_opts(1)[OF s] "3.prems"(2) by simp
    have sh2: "shrunk fs2 G"
      using traversal_shrunk_opts(1)[OF s] "3.prems"(3) by (blast intro: shrunk_trans)
    from "3.IH"(1)[OF True s "3.prems"(2,3) odm sd] have cov1: "covers c c2 cdm cd2" .
    from "3.IH"(2)[OF True s[symmetric] refl refl r o2 sh2 od2 emb rd[unfolded G2]]
    have cov2: "covers c2 c1 cd2 cd1" .
    from cov0 cov1 have "covers c c2 cd cd2" by (rule covers_trans)
    from this cov2 show ?thesis by (rule covers_trans)
  qed
qed

text \<open>
  C3, as amended. A dry run of either engine leaves the filesystem as it is, whatever
  the other flags. For deduplication, when a normal run succeeds, the dry run on the same
  tree reports the same sequence of paths, and none of them exists after the normal run.
  For cleanup, when both runs succeed, the paths the normal run removed are a subsequence
  of the paths the dry run reports.
\<close>

theorem dry_run_reports_deletions:
  "(dedup_options.DryRun os \<longrightarrow> snd (snd (DeduplicateChart fs (NewDeduplicator os) root)) = fs)
   \<and> (cleanup_options.DryRun cos \<longrightarrow> snd (snd (cleanup_Run cos fs)) = fs)
   \<and> (DeduplicateChart fs (NewDeduplicator (os\<lparr>dedup_options.DryRun := False\<rparr>)) root
          = (Inr removed, d', fs') \<longrightarrow>
        fst (DeduplicateChart fs (NewDeduplicator (os\<lparr>dedup_options.DryRun := True\<rparr>)) root)
          = Inr removed
        \<and> (\<forall>p \<in> set removed. \<not> stat fs' p))
   \<and> (cleanup_Run (cos\<lparr>cleanup_options.DryRun := False\<rparr>) fs = (None, c1, fs1)
        \<and> cleanup_Run (cos\<lparr>cleanup_options.DryRun := True\<rparr>) fs = (None, cd1, fsd) \<longrightarrow>
        subseq (deletedPaths c1) (deletedPaths cd1))"
proof -
  have a: "snd (snd (DeduplicateChart fs (NewDeduplicator os) root)) = fs" if dry: "dedup_options.DryRun os"
  proof -
    have "dedup_options.DryRun (deduplicator.opts (snd (processDependencies fs (NewDeduplicator os) root)))"
      using dry by (simp add: traversal_opts NewDeduplicator_def del: processDependencies.simps)
    then show ?thesis
      by (cases "processDependencies fs (NewDeduplicator os) root")
         (auto simp: DeduplicateChart_def split: option.splits simp del: processDependencies.simps)
  qed
  have b: "snd (snd (cleanup_Run cos fs)) = fs" if "cleanup_options.DryRun cos"
    using that
    by (simp add: cleanup_Run_def Cleanup_def traversal_dry(1) NewCleaner_def del: processChart.simps)
  have c: "fst (DeduplicateChart fs (NewDeduplicator (os\<lparr>dedup_options.DryRun := True\<rparr>)) root)
             = Inr removed \<and> (\<forall>p \<in> set removed. \<not> stat fs' p)"
    if run: "DeduplicateChart fs (NewDeduplicator (os\<lparr>dedup_options.DryRun := False\<rparr>)) root
                 = (Inr removed, d', fs')"
  proof -
    let ?off = "NewDeduplicator (os\<lparr>dedup_options.DryRun := False\<rparr>)"
    let ?on = "NewDeduplicator (os\<lparr>dedup_options.DryRun := True\<rparr>)"
    obtain r d1 where t: "processDependencies fs ?off root = (r, d1)"
      by (cases "processDependencies fs ?off root")
    have off: "\<not> dedup_options.DryRun (deduplicator.opts d1)"
      using traversal_opts[of fs ?off root] t
      by (simp add: NewDeduplicator_def del: processDependencies.simps)
    from run t off have r: "r = None" and rm: "removeEach fs (deleteDependencies d1) = (None, fs')"
      and removed: "removed = deleteDependencies d1"
      by (auto simp: DeduplicateChart_def split: option.splits prod.splits
          simp del: processDependencies.simps)
    have "?on = ?off\<lparr>deduplicator.opts := os\<lparr>dedup_options.DryRun := True\<rparr>\<rparr>"
      by (simp add: NewDeduplicator_def)
    with traversal_opts_update(1)[where fs = fs and d = ?off
        and os = "os\<lparr>dedup_options.DryRun := True\<rparr>" and cp = root] t r
    have "processDependencies fs ?on root
            = (None, d1\<lparr>deduplicator.opts := os\<lparr>dedup_options.DryRun := True\<rparr>\<rparr>)"
      by (simp del: processDependencies.simps)
    then have "fst (DeduplicateChart fs ?on root) = Inr removed"
      by (simp add: DeduplicateChart_def removed del: processDependencies.simps)
    moreover have "\<forall>p \<in> set removed. \<not> stat fs' p"
      using removeEach_gone[OF rm] removed by blast
    ultimately show ?thesis by blast
  qed
  have d: "subseq (deletedPaths c1) (deletedPaths cd1)"
    if runs: "cleanup_Run (cos\<lparr>cleanup_options.DryRun := False\<rparr>) fs = (None, c1, fs1)
        \<and> cleanup_Run (cos\<lparr>cleanup_options.DryRun := True\<rparr>) fs = (None, cd1, fsd)"
  proof -
    from runs have n: "processChart fs (NewCleaner (cos\<lparr>cleanup_options.DryRun := False\<rparr>))
                    (cleanup_options.ChartPath cos) = (None, c1, fs1)"
      and d: "processChart fs (NewCleaner (cos\<lparr>cleanup_options.DryRun := True\<rparr>))
                    (cleanup_options.ChartPath cos) = (None, cd1, fsd)"
      by (simp_all add: cleanup_Run_def Cleanup_def NewCleaner_def del: processChart.simps)
    have "covers (NewCleaner (cos\<lparr>cleanup_options.DryRun := False\<rparr>)) c1
                 (NewCleaner (cos\<lparr>cleanup_options.DryRun := True\<rparr>)) cd1"
      by (rule traversal_covers(1)[OF n _ shrunk_refl _ d]) (simp_all add: NewCleaner_def)
    then show ?thesis by (auto simp: covers_def NewCleaner_def)
  qed
  from a b c d show ?thesis by blast
qed

theorem dry_run_reports_deletions_witness:
  "dedup_options.DryRun (dedupOpts [''R''] True)
   \<and> snd (snd (DeduplicateChart fs_two_siblings (NewDeduplicator (dedupOpts [''R''] True)) [''R'']))
       = fs_two_siblings
   \<and> cleanup_options.DryRun (cleanupOpts [''R''] True)
   \<and> snd (snd (cleanup_Run (cleanupOpts [''R''] True) fs_repeated_source)) = fs_repeated_source
   \<and> fst (DeduplicateChart fs_two_siblings (NewDeduplicator (dedupOpts [''R''] False)) [''R''])
       = Inr [[''R'', ''charts'', ''b'', ''charts'', ''x'']]
   \<and> fst (DeduplicateChart fs_two_siblings (NewDeduplicator (dedupOpts [''R''] True)) [''R''])
       = Inr [[''R'', ''charts'', ''b'', ''charts'', ''x'']]
   \<and> \<not> stat (snd (snd (DeduplicateChart fs_two_siblings (NewDeduplicator (dedupOpts [''R''] False)) [''R''])))
           [''R'', ''charts'', ''b'', ''charts'', ''x'']
   \<and> fst (cleanup_Run (cleanupOpts [''R''] False) fs_repeated_source) = None
   \<and> fst (cleanup_Run (cleanupOpts [''R''] True) fs_repeated_source) = None
   \<and> subseq (deletedPaths (fst (snd (cleanup_Run (cleanupOpts [''R''] False) fs_repeated_source))))
              (deletedPaths (fst (snd (cleanup_Run (cleanupOpts [''R''] True) fs_repeated_source))))"
proof -
  let ?on = "dedupOpts [''R''] True" and ?off = "dedupOpts [''R''] False"
  let ?con = "cleanupOpts [''R''] True" and ?coff = "cleanupOpts [''R''] False"
  let ?N = "DeduplicateChart fs_two_siblings (NewDeduplicator ?off) [''R'']"
  let ?CN = "cleanup_Run ?coff fs_repeated_source" and ?CD = "cleanup_Run ?con fs_repeated_source"
  have o: "?on\<lparr>dedup_options.DryRun := False\<rparr> = ?off" "?on\<lparr>dedup_options.DryRun := True\<rparr> = ?on"
    by (simp_all add: dedupOpts_def)
  have co: "?con\<lparr>cleanup_options.DryRun := False\<rparr> = ?coff" "?con\<lparr>cleanup_options.DryRun := True\<rparr> = ?con"
    by (simp_all add: cleanupOpts_def)
  have h1: "dedup_options.DryRun ?on" by (simp add: dedupOpts_def)
  have h2: "cleanup_options.DryRun ?con" by (simp add: cleanupOpts_def)
  have n: "fst ?N = Inr [[''R'', ''charts'', ''b'', ''charts'', ''x'']]" by code_simp
  have h3: "?N = (Inr [[''R'', ''charts'', ''b'', ''charts'', ''x'']], fst (snd ?N), snd (snd ?N))"
    using n by (metis prod.collapse)
  have cn: "fst ?CN = None" by code_simp
  have cd: "fst ?CD = None" by code_simp
  have h4: "?CN = (None, fst (snd ?CN), snd (snd ?CN)) \<and> ?CD = (None, fst (snd ?CD), snd (snd ?CD))"
    using cn cd by (metis prod.collapse)
  note dedup = dry_run_reports_deletions[where os = ?on and cos = ?con and fs = fs_two_siblings
      and root = "[''R'']" and removed = "[[''R'', ''charts'', ''b'', ''charts'', ''x'']]"
      and d' = "fst (snd ?N)" and fs' = "snd (snd ?N)", unfolded o co]
  note clean = dry_run_reports_deletions[where os = ?on and cos = ?con and fs = fs_repeated_source
      and ?c1.0 = "fst (snd ?CN)" and ?fs1.0 = "snd (snd ?CN)"
      and ?cd1.0 = "fst (snd ?CD)" and fsd = "snd (snd ?CD)", unfolded o co]
  from dedup h1 h3 have a: "snd (snd (DeduplicateChart fs_two_siblings (NewDeduplicator ?on) [''R''])) = fs_two_siblings"
    and c: "fst (DeduplicateChart fs_two_siblings (NewDeduplicator ?on) [''R''])
              = Inr [[''R'', ''charts'', ''b'', ''charts'', ''x'']]"
    and g0: "\<forall>p \<in> set [[''R'', ''charts'', ''b'', ''charts'', ''x'']]. \<not> stat (snd (snd ?N)) p"
    by blast+
  from g0 have g: "\<not> stat (snd (snd ?N)) [''R'', ''charts'', ''b'', ''charts'', ''x'']"
    by (simp del: processDependencies.simps)
  from clean h2 h4 have b: "snd (snd ?CD) = fs_repeated_source"
    and s: "subseq (deletedPaths (fst (snd ?CN))) (deletedPaths (fst (snd ?CD)))"
    by blast+
  from h1 a h2 b n c g cn cd s show ?thesis by blast
qed

text \<open>
  C3 as stated fails for cleanup: a normal run removes as it goes, a dry run does not.
  On \<^verbatim>\<open>fs_repeated_source\<close> the dry run reports \<^verbatim>\<open>/R/db\<close> twice, once for each
  dependency declared from it, while the normal run removes it for the first one and
  finds nothing left for the second.
\<close>

theorem dry_run_reports_more_than_removed:
  "fst (cleanup_Run (cleanupOpts [''R''] True) fs_repeated_source) = None
   \<and> deletedPaths (fst (snd (cleanup_Run (cleanupOpts [''R''] True) fs_repeated_source)))
       = [[''R'', ''db''], [''R'', ''db'']]
   \<and> fst (cleanup_Run (cleanupOpts [''R''] False) fs_repeated_source) = None
   \<and> deletedPaths (fst (snd (cleanup_Run (cleanupOpts [''R''] False) fs_repeated_source)))
       = [[''R'', ''db'']]"
  by code_simp

end
